theory Spec2Isabelle
  imports Complex_Main
begin

section \<open>Numbers of the host language\<close>

text \<open>
  A TypeScript \<open>number\<close> is a binary64 value.  It is modelled as a real extended with
  the three non-finite values of the language: \<open>Infinity\<close>, \<open>-Infinity\<close> and \<open>NaN\<close>;
  the finite numbers of the language are the reals that \<open>binary64\<close> below returns.  The
  two zeros are identified, the zero being read as \<open>+0\<close>.

  An arithmetic operation of the language is the exact operation followed by the
  rounding to the nearest binary64 value.  The exact operations come first; they also
  give the table of the language for the non-finite operands.
\<close>

datatype number = Fin real | PInf | NInf | NaN

fun neg :: "number \<Rightarrow> number" where
  "neg (Fin a) = Fin (- a)"
| "neg PInf = NInf"
| "neg NInf = PInf"
| "neg NaN = NaN"

fun add :: "number \<Rightarrow> number \<Rightarrow> number" where
  "add (Fin a) (Fin b) = Fin (a + b)"
| "add NaN _ = NaN"
| "add _ NaN = NaN"
| "add PInf NInf = NaN"
| "add NInf PInf = NaN"
| "add PInf _ = PInf"
| "add _ PInf = PInf"
| "add NInf _ = NInf"
| "add _ NInf = NInf"

definition sub :: "number \<Rightarrow> number \<Rightarrow> number" where
  "sub a b = add a (neg b)"

text \<open>The sign of an infinite product or quotient: \<open>True\<close> is positive.\<close>

definition signed_inf :: "bool \<Rightarrow> number" where
  "signed_inf positive = (if positive then PInf else NInf)"

fun mul :: "number \<Rightarrow> number \<Rightarrow> number" where
  "mul (Fin a) (Fin b) = Fin (a * b)"
| "mul NaN _ = NaN"
| "mul _ NaN = NaN"
| "mul (Fin a) PInf = (if a = 0 then NaN else signed_inf (0 < a))"
| "mul (Fin a) NInf = (if a = 0 then NaN else signed_inf (a < 0))"
| "mul PInf (Fin b) = (if b = 0 then NaN else signed_inf (0 < b))"
| "mul NInf (Fin b) = (if b = 0 then NaN else signed_inf (b < 0))"
| "mul PInf PInf = PInf"
| "mul NInf NInf = PInf"
| "mul PInf NInf = NInf"
| "mul NInf PInf = NInf"

fun divide_num :: "number \<Rightarrow> number \<Rightarrow> number" where
  "divide_num (Fin a) (Fin b) =
     (if b = 0 then (if a = 0 then NaN else signed_inf (0 < a)) else Fin (a / b))"
| "divide_num NaN _ = NaN"
| "divide_num _ NaN = NaN"
| "divide_num (Fin a) PInf = Fin 0"
| "divide_num (Fin a) NInf = Fin 0"
| "divide_num PInf (Fin b) = signed_inf (0 \<le> b)"
| "divide_num NInf (Fin b) = signed_inf (b < 0)"
| "divide_num PInf _ = NaN"
| "divide_num NInf _ = NaN"

text \<open>The comparison \<open>a < b\<close>: false as soon as one side is \<open>NaN\<close>.\<close>

fun less_num :: "number \<Rightarrow> number \<Rightarrow> bool" where
  "less_num (Fin a) (Fin b) = (a < b)"
| "less_num NaN _ = False"
| "less_num _ NaN = False"
| "less_num _ NInf = False"
| "less_num NInf _ = True"
| "less_num PInf _ = False"
| "less_num _ PInf = True"

text \<open>The comparison \<open>a > b\<close> is \<open>b < a\<close>.\<close>

definition greater_num :: "number \<Rightarrow> number \<Rightarrow> bool" where
  "greater_num a b = less_num b a"

text \<open>\<open>Math.min\<close> of two numbers.\<close>

fun min_num :: "number \<Rightarrow> number \<Rightarrow> number" where
  "min_num (Fin a) (Fin b) = Fin (min a b)"
| "min_num NaN _ = NaN"
| "min_num _ NaN = NaN"
| "min_num NInf _ = NInf"
| "min_num _ NInf = NInf"
| "min_num PInf b = b"
| "min_num a PInf = a"

text \<open>
  The remainder \<open>a % b\<close>: the result takes the sign of the dividend, the quotient being
  truncated towards zero.  The remainder of two binary64 values is a binary64 value, so
  the language computes it without rounding.
\<close>

definition trunc_toward_zero :: "real \<Rightarrow> int" where
  "trunc_toward_zero x = (if 0 \<le> x then \<lfloor>x\<rfloor> else \<lceil>x\<rceil>)"

fun mod_num :: "number \<Rightarrow> number \<Rightarrow> number" where
  "mod_num (Fin a) (Fin b) =
     (if b = 0 then NaN else Fin (a - b * of_int (trunc_toward_zero (a / b))))"
| "mod_num (Fin a) PInf = Fin a"
| "mod_num (Fin a) NInf = Fin a"
| "mod_num _ _ = NaN"

text \<open>
  \<open>Math.round\<close>: the nearest integer, a tie going up.  The nearest integer of a binary64
  value is a binary64 value, so there is no rounding here either.
\<close>

fun round_num :: "number \<Rightarrow> number" where
  "round_num (Fin a) = Fin (of_int \<lfloor>a + 1 / 2\<rfloor>)"
| "round_num x = x"

text \<open>
  Reading an array at a number: an element when the number is an integer index inside
  the array, \<open>undefined\<close> (here \<open>None\<close>) otherwise.
\<close>

fun array_get :: "'a list \<Rightarrow> number \<Rightarrow> 'a option" where
  "array_get xs (Fin i) =
     (if of_int \<lfloor>i\<rfloor> = i \<and> 0 \<le> i \<and> nat \<lfloor>i\<rfloor> < length xs then Some (xs ! nat \<lfloor>i\<rfloor>) else None)"
| "array_get xs _ = None"

subsection \<open>Rounding to binary64\<close>

text \<open>
  The sum of two finite numbers is the exact sum rounded to the nearest binary64 value,
  a tie going to the even significand.  Around a real \<open>x\<close> that is not zero the
  binary64 values are the multiples of the quantum \<open>2\<^sup>e\<^sup>-\<^sup>5\<^sup>2\<close>, where \<open>e\<close> is the
  binary exponent of \<open>x\<close>, at least \<open>-1022\<close>; a rounded magnitude of \<open>2\<^sup>1\<^sup>0\<^sup>2\<^sup>4\<close> or more
  is an infinity.
\<close>

definition round_half_even :: "real \<Rightarrow> int" where
  "round_half_even y =
     (let f = \<lfloor>y\<rfloor>
      in if y - of_int f < 1 / 2 then f
         else if 1 / 2 < y - of_int f then f + 1
         else if even f then f else f + 1)"

definition binary64_quantum :: "real \<Rightarrow> real" where
  "binary64_quantum x = 2 powr (of_int (max \<lfloor>log 2 \<bar>x\<bar>\<rfloor> (- 1022)) - 52)"

definition binary64 :: "real \<Rightarrow> number" where
  "binary64 x =
     (if x = 0 then Fin 0
      else (let q = binary64_quantum x;
                r = of_int (round_half_even (x / q)) * q
            in if 2 ^ 1024 \<le> \<bar>r\<bar> then signed_inf (0 < r) else Fin r))"

fun add_binary64 :: "number \<Rightarrow> number \<Rightarrow> number" where
  "add_binary64 (Fin a) (Fin b) = binary64 (a + b)"
| "add_binary64 a b = add a b"

text \<open>The difference, the product and the quotient are rounded in the same way.\<close>

fun sub_binary64 :: "number \<Rightarrow> number \<Rightarrow> number" where
  "sub_binary64 (Fin a) (Fin b) = binary64 (a - b)"
| "sub_binary64 a b = sub a b"

fun mul_binary64 :: "number \<Rightarrow> number \<Rightarrow> number" where
  "mul_binary64 (Fin a) (Fin b) = binary64 (a * b)"
| "mul_binary64 a b = mul a b"

fun divide_binary64 :: "number \<Rightarrow> number \<Rightarrow> number" where
  "divide_binary64 (Fin a) (Fin b) =
     (if b = 0 then divide_num (Fin a) (Fin b) else binary64 (a / b))"
| "divide_binary64 a b = divide_num a b"

subsection \<open>The mathematical functions of the host\<close>

text \<open>
  The language leaves the values of \<open>Math.sin\<close>, \<open>Math.cos\<close>, \<open>Math.sqrt\<close> and
  \<open>Math.atan2\<close> to the host, which approximates the mathematical functions.  They are
  parameters of the functions that call them, collected in a record.  \<open>Math.PI\<close> is
  the binary64 value nearest to \<open>\<pi>\<close>, which is \<open>884279719003555 / 2\<^sup>4\<^sup>8\<close>.
\<close>

record Math =
  math_sin :: "number \<Rightarrow> number"
  math_cos :: "number \<Rightarrow> number"
  math_sqrt :: "number \<Rightarrow> number"
  math_atan2 :: "number \<Rightarrow> number \<Rightarrow> number"

definition MATH_PI :: number where
  "MATH_PI = Fin (884279719003555 / 2 ^ 48)"

section \<open>Geographic calculations\<close>

record Coordinates =
  latitude :: number
  longitude :: number

definition EARTH_RADIUS_METERS :: number where
  "EARTH_RADIUS_METERS = Fin 6371000"

text \<open>The literal \<open>3.28084\<close> denotes the binary64 value nearest to it.\<close>

definition FEET_PER_METER :: number where
  "FEET_PER_METER = binary64 (328084 / 100000)"

definition DISTANCE_THRESHOLD_FEET :: number where
  "DISTANCE_THRESHOLD_FEET = Fin 1000"

definition toRadians :: "number \<Rightarrow> number" where
  "toRadians degrees = mul_binary64 degrees (divide_binary64 MATH_PI (Fin 180))"

definition toDegrees :: "number \<Rightarrow> number" where
  "toDegrees radians = mul_binary64 radians (divide_binary64 (Fin 180) MATH_PI)"

subsection \<open>Cardinal direction\<close>

definition directions :: "string list" where
  "directions = [''N'', ''NE'', ''E'', ''SE'', ''S'', ''SW'', ''W'', ''NW'']"

definition getCardinalDirection :: "number \<Rightarrow> string option" where
  "getCardinalDirection bearing =
     (let index = mod_num (round_num (divide_binary64 bearing (Fin 45))) (Fin 8)
      in array_get directions index)"

subsection \<open>Great-circle distance\<close>

text \<open>
  The haversine term \<open>a\<close> of \<open>calculateDistance\<close>, the square of half the chord
  length between the points.
\<close>

definition haversine_a :: "Math \<Rightarrow> Coordinates \<Rightarrow> Coordinates \<Rightarrow> number" where
  "haversine_a M point1 point2 =
     (let lat1Rad = toRadians (latitude point1);
          lat2Rad = toRadians (latitude point2);
          deltaLat = toRadians (sub_binary64 (latitude point2) (latitude point1));
          deltaLong = toRadians (sub_binary64 (longitude point2) (longitude point1))
      in add_binary64
           (mul_binary64 (math_sin M (divide_binary64 deltaLat (Fin 2)))
                         (math_sin M (divide_binary64 deltaLat (Fin 2))))
           (mul_binary64
              (mul_binary64 (mul_binary64 (math_cos M lat1Rad) (math_cos M lat2Rad))
                            (math_sin M (divide_binary64 deltaLong (Fin 2))))
              (math_sin M (divide_binary64 deltaLong (Fin 2)))))"

text \<open>The angular distance \<open>c = 2 * atan2 (sqrt a, sqrt (1 - a))\<close>.\<close>

definition angular_distance :: "Math \<Rightarrow> number \<Rightarrow> number" where
  "angular_distance M a =
     mul_binary64 (Fin 2)
       (math_atan2 M (math_sqrt M a) (math_sqrt M (sub_binary64 (Fin 1) a)))"

definition calculateDistance :: "Math \<Rightarrow> Coordinates \<Rightarrow> Coordinates \<Rightarrow> number" where
  "calculateDistance M point1 point2 =
     (let a = haversine_a M point1 point2;
          c = angular_distance M a
      in mul_binary64 EARTH_RADIUS_METERS c)"

subsection \<open>Bearing\<close>

definition calculateBearing :: "Math \<Rightarrow> Coordinates \<Rightarrow> Coordinates \<Rightarrow> number" where
  "calculateBearing M from to =
     (let lat1 = toRadians (latitude from);
          lat2 = toRadians (latitude to);
          deltaLong = toRadians (sub_binary64 (longitude to) (longitude from));
          x = mul_binary64 (math_sin M deltaLong) (math_cos M lat2);
          y = sub_binary64
                (mul_binary64 (math_cos M lat1) (math_sin M lat2))
                (mul_binary64 (mul_binary64 (math_sin M lat1) (math_cos M lat2))
                              (math_cos M deltaLong));
          bearing = toDegrees (math_atan2 M x y)
      in mod_num (add_binary64 bearing (Fin 360)) (Fin 360))"

subsection \<open>Heading normalisation with addition in binary64\<close>

text \<open>
  The loop of \<open>normalizeHeading\<close> and the function itself, with the addition of the
  loop rounded to binary64.  The remainder is exact in binary64.  The loop
  \<open>while (heading < 0) heading += 360\<close> need not end (it does not at \<open>-Infinity\<close>), so
  the result is optional: \<open>None\<close> stands for a loop that runs for ever.
\<close>

partial_function (option) normalizeHeading_while_binary64 :: "number \<Rightarrow> number option" where
  "normalizeHeading_while_binary64 heading =
     (if less_num heading (Fin 0)
      then normalizeHeading_while_binary64 (add_binary64 heading (Fin 360))
      else Some heading)"

definition normalizeHeading_binary64 :: "number \<Rightarrow> number option" where
  "normalizeHeading_binary64 heading =
     map_option (\<lambda>h. mod_num h (Fin 360)) (normalizeHeading_while_binary64 heading)"

definition calculateRelativeHeading :: "number \<Rightarrow> number \<Rightarrow> number option" where
  "calculateRelativeHeading bearing deviceHeading =
     (let relative = sub_binary64 bearing deviceHeading in normalizeHeading_binary64 relative)"

subsection \<open>Distance formatting\<close>

text \<open>
  The object returned by \<open>formatDistance\<close>, with its fields \<open>value\<close> and \<open>unit\<close>.
  The rendering of a number by the host, \<open>toLocaleString\<close>, depends on the locale of
  the device and is a parameter.
\<close>

record DistanceDisplay =
  value_text :: string
  unit_text :: string

definition formatDistance :: "(number \<Rightarrow> string) \<Rightarrow> number \<Rightarrow> DistanceDisplay" where
  "formatDistance toLocaleString meters =
     (let feet = mul_binary64 meters FEET_PER_METER
      in if less_num feet DISTANCE_THRESHOLD_FEET
         then \<lparr>value_text = toLocaleString (round_num feet), unit_text = ''ft''\<rparr>
         else (let roundedMeters =
                     mul_binary64 (round_num (divide_binary64 meters (Fin 10))) (Fin 10)
               in \<lparr>value_text = toLocaleString roundedMeters, unit_text = ''m''\<rparr>))"

section \<open>The geolocation hook\<close>

text \<open>
  \<open>BestReadingResult\<close> is a position with its accuracy; a \<open>PositionReading\<close> adds the
  time of the fix.  A \<open>GeolocationPosition\<close> is what the sensor delivers.
\<close>

record BestReadingResult =
  coords :: Coordinates
  accuracy :: number

record PositionReading = BestReadingResult +
  timestamp :: number

datatype GeolocationPosition =
  GeolocationPosition (pos_latitude: number) (pos_longitude: number)
    (pos_accuracy: number) (pos_timestamp: number)

definition POSITION_BUFFER_SIZE :: nat where
  "POSITION_BUFFER_SIZE = 5"

definition MOVEMENT_THRESHOLD_FACTOR :: number where
  "MOVEMENT_THRESHOLD_FACTOR = Fin (1 / 2)"

text \<open>
  The state of one instance of the hook: its five state variables (the accuracy state
  is named \<open>position_accuracy\<close>, apart from the field of a reading), its three
  references, and the part of the browser it talks to: whether \<open>navigator.geolocation\<close>
  exists, the watches now registered, and the identifier the next watch gets.
\<close>

record Hook =
  position :: "Coordinates option"
  position_accuracy :: "number option"
  error :: "string option"
  isTracking :: bool
  isLoading :: bool
  watchIdRef :: "nat option"
  positionBufferRef :: "PositionReading list"
  lastReportedPositionRef :: "Coordinates option"
  geolocation :: bool
  watches :: "nat list"
  nextWatchId :: nat

text \<open>
  One round of the loop of \<open>calculateSmoothedPosition\<close>, on the tuple
  \<open>(totalWeight, weightedLat, weightedLng, bestAccuracy)\<close>.
\<close>

definition smoothing_step ::
  "number \<times> number \<times> number \<times> number \<Rightarrow> PositionReading
     \<Rightarrow> number \<times> number \<times> number \<times> number" where
  "smoothing_step acc reading =
     (case acc of (totalWeight, weightedLat, weightedLng, bestAccuracy) \<Rightarrow>
        (let weight = divide_binary64 (Fin 1) (accuracy reading)
         in (add_binary64 totalWeight weight,
             add_binary64 weightedLat (mul_binary64 (latitude (coords reading)) weight),
             add_binary64 weightedLng (mul_binary64 (longitude (coords reading)) weight),
             min_num bestAccuracy (accuracy reading))))"

definition calculateSmoothedPosition :: "PositionReading list \<Rightarrow> BestReadingResult option" where
  "calculateSmoothedPosition buffer =
     (if length buffer = 0 then None
      else (case foldl smoothing_step (Fin 0, Fin 0, Fin 0, PInf) buffer of
              (totalWeight, weightedLat, weightedLng, bestAccuracy) \<Rightarrow>
                Some \<lparr>coords = \<lparr>latitude = divide_binary64 weightedLat totalWeight,
                                 longitude = divide_binary64 weightedLng totalWeight\<rparr>,
                      accuracy = bestAccuracy\<rparr>))"

text \<open>\<open>push\<close> followed by the \<open>shift\<close> that keeps the last readings only.\<close>

definition push_reading :: "PositionReading list \<Rightarrow> PositionReading \<Rightarrow> PositionReading list" where
  "push_reading buffer newReading =
     (let pushed = buffer @ [newReading]
      in if length pushed > POSITION_BUFFER_SIZE then tl pushed else pushed)"

text \<open>
  \<open>handleSuccess\<close>, the callback of the watch.  The hook imports \<open>calculateDistance\<close>
  from the geographic calculations; here the function that measures the distance is
  the first argument, so that the statements about the callback hold whatever it
  returns.
\<close>

definition handleSuccess ::
  "(Coordinates \<Rightarrow> Coordinates \<Rightarrow> number) \<Rightarrow> GeolocationPosition \<Rightarrow> Hook \<Rightarrow> Hook" where
  "handleSuccess distance pos s =
     (let newReading = \<lparr>coords = \<lparr>latitude = pos_latitude pos, longitude = pos_longitude pos\<rparr>,
                        accuracy = pos_accuracy pos, timestamp = pos_timestamp pos\<rparr>;
          s1 = s\<lparr>positionBufferRef := push_reading (positionBufferRef s) newReading\<rparr>
      in case calculateSmoothedPosition (positionBufferRef s1) of
           None \<Rightarrow> s1
         | Some smoothed \<Rightarrow>
             (let lastPos = lastReportedPositionRef s1;
                  movementThreshold = mul_binary64 (pos_accuracy pos) MOVEMENT_THRESHOLD_FACTOR;
                  s2 = (if (case lastPos of None \<Rightarrow> True
                            | Some lp \<Rightarrow>
                                greater_num (distance lp (coords smoothed)) movementThreshold)
                        then s1\<lparr>position := Some (coords smoothed),
                                position_accuracy := Some (accuracy smoothed),
                                lastReportedPositionRef := Some (coords smoothed)\<rparr>
                        else s1)
              in s2\<lparr>error := None, isLoading := False\<rparr>))"

definition clearWatch :: "nat \<Rightarrow> Hook \<Rightarrow> Hook" where
  "clearWatch w s = s\<lparr>watches := removeAll w (watches s)\<rparr>"

definition watchPosition :: "Hook \<Rightarrow> nat \<times> Hook" where
  "watchPosition s =
     (nextWatchId s, s\<lparr>watches := watches s @ [nextWatchId s], nextWatchId := Suc (nextWatchId s)\<rparr>)"

definition startTracking :: "Hook \<Rightarrow> Hook" where
  "startTracking s =
     (if \<not> geolocation s
      then s\<lparr>error := Some ''Geolocation is not supported by your browser.''\<rparr>
      else (let s1 = (case watchIdRef s of Some w \<Rightarrow> clearWatch w s | None \<Rightarrow> s);
                s2 = s1\<lparr>isLoading := True, isTracking := True, error := None\<rparr>
            in case watchPosition s2 of (w, s3) \<Rightarrow> s3\<lparr>watchIdRef := Some w\<rparr>))"

definition stopTracking :: "Hook \<Rightarrow> Hook" where
  "stopTracking s =
     (let s1 = (case watchIdRef s of
                  Some w \<Rightarrow> (clearWatch w s)\<lparr>watchIdRef := None\<rparr>
                | None \<Rightarrow> s)
      in s1\<lparr>isTracking := False, isLoading := False\<rparr>)"


subsection \<open>Best of several samples\<close>

text \<open>
  One request \<open>getCurrentPosition\<close> either resolves with a position or rejects with the
  code of a \<open>GeolocationPositionError\<close>.  The sensor is the outcome of each request of a
  sampling run, by the index of the request.
\<close>

datatype sample = Resolved GeolocationPosition | Rejected nat

function sampling_loop ::
  "(int \<Rightarrow> sample) \<Rightarrow> int \<Rightarrow> int \<Rightarrow> PositionReading list \<Rightarrow> PositionReading list" where
  "sampling_loop sensor numSamples i readings =
     (if i < numSamples
      then (case sensor i of
              Resolved pos \<Rightarrow>
                sampling_loop sensor numSamples (i + 1)
                  (readings @ [\<lparr>coords = \<lparr>latitude = pos_latitude pos,
                                            longitude = pos_longitude pos\<rparr>,
                                 accuracy = pos_accuracy pos, timestamp = pos_timestamp pos\<rparr>])
            | Rejected err \<Rightarrow> sampling_loop sensor numSamples (i + 1) readings)
      else readings)"
  by pat_completeness auto
termination
  by (relation "measure (\<lambda>(sensor, numSamples, i, readings). nat (numSamples - i))") auto

text \<open>\<open>Array.prototype.reduce\<close> without an initial value: a \<open>TypeError\<close> on an empty array.\<close>

fun reduce :: "('a \<Rightarrow> 'a \<Rightarrow> 'a) \<Rightarrow> 'a list \<Rightarrow> 'a option" where
  "reduce f [] = None"
| "reduce f (x # xs) = Some (foldl f x xs)"

definition better_reading :: "PositionReading \<Rightarrow> PositionReading \<Rightarrow> PositionReading" where
  "better_reading best current =
     (if less_num (accuracy current) (accuracy best) then current else best)"

definition getBestReading ::
  "(int \<Rightarrow> sample) \<Rightarrow> int \<Rightarrow> Hook \<Rightarrow> BestReadingResult option \<times> Hook" where
  "getBestReading sensor numSamples s =
     (if \<not> geolocation s
      then (None, s\<lparr>error := Some ''Geolocation is not supported by your browser.''\<rparr>)
      else (let s1 = s\<lparr>isLoading := True, error := None\<rparr>;
                readings = sampling_loop sensor numSamples 0 [];
                s2 = s1\<lparr>isLoading := False\<rparr>
            in if length readings = 0
               then (None, s2\<lparr>error := Some ''Failed to get any GPS readings.''\<rparr>)
               else (case reduce better_reading readings of
                       None \<Rightarrow> (None, s2)
                     | Some bestReading \<Rightarrow>
                         (Some \<lparr>coords = coords bestReading, accuracy = accuracy bestReading\<rparr>,
                          s2\<lparr>position := Some (coords bestReading),
                             position_accuracy := Some (accuracy bestReading)\<rparr>))))"

section \<open>The saved location in local storage\<close>

datatype exception = SecurityError | SyntaxError | QuotaExceededError | TypeError

text \<open>
  The local storage of the browser: either it refuses every access, or it holds
  strings under keys.
\<close>

datatype Storage = Blocked | Store "string \<rightharpoonup> string"

definition STORAGE_KEY :: string where
  "STORAGE_KEY = ''carfinder_saved_location''"

fun getItem :: "Storage \<Rightarrow> string \<Rightarrow> exception + string option" where
  "getItem Blocked key = Inl SecurityError"
| "getItem (Store m) key = Inr (m key)"

text \<open>\<open>try { body } catch (error) { handler }\<close> on results.\<close>

definition try_catch :: "exception + 'a \<Rightarrow> (exception \<Rightarrow> exception + 'a) \<Rightarrow> exception + 'a" where
  "try_catch body handler = (case body of Inl e \<Rightarrow> handler e | Inr v \<Rightarrow> Inr v)"

text \<open>
  \<open>getCarLocation\<close>.  \<open>JSON.parse\<close> is a parameter: it throws a \<open>SyntaxError\<close> or returns
  a value, \<open>None\<close> being the value \<open>null\<close>.  A string is truthy when it is not empty.
\<close>

definition getCarLocation ::
  "(string \<Rightarrow> exception + 'v option) \<Rightarrow> Storage \<Rightarrow> exception + 'v option" where
  "getCarLocation JSON_parse storage =
     try_catch
       (case getItem storage STORAGE_KEY of
          Inl e \<Rightarrow> Inl e
        | Inr data \<Rightarrow>
            (case data of
               None \<Rightarrow> Inr None
             | Some text \<Rightarrow> (if text \<noteq> [] then JSON_parse text else Inr None)))
       (\<lambda>error. Inr None)"

section \<open>Notions for the statements\<close>

subsection \<open>Finite numbers, coordinates and readings\<close>

text \<open>
  The finite numbers and their values.  A reading is well formed when its coordinates
  are finite and its accuracy is finite and strictly positive.
\<close>

fun finite_num :: "number \<Rightarrow> bool" where
  "finite_num (Fin a) = True"
| "finite_num _ = False"

fun real_of :: "number \<Rightarrow> real" where
  "real_of (Fin a) = a"
| "real_of _ = 0"

definition lat_of :: "'a BestReadingResult_scheme \<Rightarrow> real" where
  "lat_of r = real_of (latitude (coords r))"

definition lng_of :: "'a BestReadingResult_scheme \<Rightarrow> real" where
  "lng_of r = real_of (longitude (coords r))"

definition well_formed_reading :: "PositionReading \<Rightarrow> bool" where
  "well_formed_reading r \<longleftrightarrow>
     finite_num (latitude (coords r)) \<and> finite_num (longitude (coords r)) \<and>
     finite_num (accuracy r) \<and> 0 < real_of (accuracy r)"

definition finite_coordinates :: "Coordinates \<Rightarrow> bool" where
  "finite_coordinates c \<longleftrightarrow> finite_num (latitude c) \<and> finite_num (longitude c)"

subsection \<open>Readings of a sampling run\<close>

text \<open>
  The reading that \<open>handleSuccess\<close> and \<open>getBestReading\<close> build from a position of
  the sensor, and the positions with which the requests \<open>0, \<dots>, numSamples - 1\<close>
  resolved.
\<close>

definition reading_of :: "GeolocationPosition \<Rightarrow> PositionReading" where
  "reading_of pos =
     \<lparr>coords = \<lparr>latitude = pos_latitude pos, longitude = pos_longitude pos\<rparr>,
      accuracy = pos_accuracy pos, timestamp = pos_timestamp pos\<rparr>"

definition resolved_position :: "sample \<Rightarrow> GeolocationPosition option" where
  "resolved_position x = (case x of Resolved pos \<Rightarrow> Some pos | Rejected err \<Rightarrow> None)"

definition resolved_samples :: "(int \<Rightarrow> sample) \<Rightarrow> int \<Rightarrow> GeolocationPosition list" where
  "resolved_samples sensor numSamples =
     List.map_filter (\<lambda>i. resolved_position (sensor i)) [0..numSamples - 1]"

subsection \<open>The hook when it is mounted\<close>

text \<open>
  The state of the hook before any update, in a browser that has a geolocation service.
\<close>

definition initial_hook :: Hook where
  "initial_hook =
     \<lparr>position = None, position_accuracy = None, error = None, isTracking = False,
      isLoading = False, watchIdRef = None, positionBufferRef = [],
      lastReportedPositionRef = None, geolocation = True, watches = [], nextWatchId = 0\<rparr>"

subsection \<open>The great-circle distance in exact arithmetic\<close>

text \<open>
  The angle of the point \<open>(x, y)\<close> in \<open>(-\<pi>, \<pi>]\<close>, and the haversine formula over the
  reals, without any rounding: the distance that \<open>calculateDistance\<close> approximates.  It
  measures the distances of the runs below.
\<close>

definition atan2 :: "real \<Rightarrow> real \<Rightarrow> real" where
  "atan2 y x =
     (if 0 < x then arctan (y / x)
      else if x < 0 then (if 0 \<le> y then arctan (y / x) + pi else arctan (y / x) - pi)
      else if 0 < y then pi / 2
      else if y < 0 then - (pi / 2)
      else 0)"

definition haversine :: "real \<Rightarrow> real \<Rightarrow> real \<Rightarrow> real \<Rightarrow> real" where
  "haversine lat1 long1 lat2 long2 =
     (let lat1Rad = lat1 * (pi / 180);
          lat2Rad = lat2 * (pi / 180);
          deltaLat = (lat2 - lat1) * (pi / 180);
          deltaLong = (long2 - long1) * (pi / 180)
      in sin (deltaLat / 2) * sin (deltaLat / 2) +
         cos lat1Rad * cos lat2Rad * sin (deltaLong / 2) * sin (deltaLong / 2))"

definition great_circle_distance :: "Coordinates \<Rightarrow> Coordinates \<Rightarrow> number" where
  "great_circle_distance point1 point2 =
     (case (latitude point1, longitude point1, latitude point2, longitude point2) of
        (Fin lat1, Fin long1, Fin lat2, Fin long2) \<Rightarrow>
          (let a = haversine lat1 long1 lat2 long2
           in Fin (6371000 * (2 * atan2 (sqrt a) (sqrt (1 - a)))))
      | _ \<Rightarrow> NaN)"

subsection \<open>The movement gate in words of the state\<close>

text \<open>
  The smoothed position that \<open>handleSuccess\<close> computes for an incoming position, the
  threshold of the gate for it, and the condition that the distance it measures from
  the last reported position to the smoothed position is greater than the threshold.
  The smoothed position is within the threshold when that comparison fails, which it
  also does when the distance is \<open>NaN\<close>.  A run of positions stays within the threshold
  when each does, in the state the earlier ones leave.
\<close>

definition smoothed_after :: "GeolocationPosition \<Rightarrow> Hook \<Rightarrow> BestReadingResult option" where
  "smoothed_after pos s =
     calculateSmoothedPosition (push_reading (positionBufferRef s) (reading_of pos))"

definition movement_threshold :: "GeolocationPosition \<Rightarrow> number" where
  "movement_threshold pos = mul_binary64 (pos_accuracy pos) MOVEMENT_THRESHOLD_FACTOR"


definition within_threshold ::
  "(Coordinates \<Rightarrow> Coordinates \<Rightarrow> number) \<Rightarrow> GeolocationPosition \<Rightarrow> Hook \<Rightarrow> bool" where
  "within_threshold distance pos s =
     (case (lastReportedPositionRef s, smoothed_after pos s) of
        (Some lastPos, Some smoothed) \<Rightarrow>
          \<not> greater_num (distance lastPos (coords smoothed)) (movement_threshold pos)
      | _ \<Rightarrow> False)"


subsection \<open>A run over two tracking sessions\<close>

text \<open>
  A first session receives one position at latitude 0 and longitude 0 and is stopped;
  a second session is started and receives one position at longitude 180.
\<close>

definition first_session :: Hook where
  "first_session =
     stopTracking
       (handleSuccess great_circle_distance (GeolocationPosition (Fin 0) (Fin 0) (Fin 1) (Fin 0))
          (startTracking initial_hook))"

definition second_session :: Hook where
  "second_session =
     handleSuccess great_circle_distance (GeolocationPosition (Fin 0) (Fin 180) (Fin 1) (Fin 1))
       (startTracking first_session)"

subsection \<open>The confidence-weighted mean\<close>





subsection \<open>Hosts\<close>

text \<open>
  What the statements about angles ask of the host: on finite arguments its sine and
  cosine are finite and of magnitude at most 1, and its \<open>atan2\<close> is finite and of
  magnitude at most 4 (the language asks for a result between \<open>-\<pi>\<close> and \<open>\<pi>\<close>).
\<close>

definition math_conforms :: "Math \<Rightarrow> bool" where
  "math_conforms M \<longleftrightarrow>
     (\<forall>a. \<exists>s. math_sin M (Fin a) = Fin s \<and> \<bar>s\<bar> \<le> 1) \<and>
     (\<forall>a. \<exists>c. math_cos M (Fin a) = Fin c \<and> \<bar>c\<bar> \<le> 1) \<and>
     (\<forall>y x. \<exists>t. math_atan2 M (Fin y) (Fin x) = Fin t \<and> \<bar>t\<bar> \<le> 4)"

text \<open>
  The mathematical functions on numbers, with the table of the language for the
  non-finite arguments, and the host that returns their values rounded to binary64.
\<close>

fun sin_num :: "number \<Rightarrow> number" where
  "sin_num (Fin a) = Fin (sin a)"
| "sin_num _ = NaN"

fun cos_num :: "number \<Rightarrow> number" where
  "cos_num (Fin a) = Fin (cos a)"
| "cos_num _ = NaN"

fun sqrt_num :: "number \<Rightarrow> number" where
  "sqrt_num (Fin a) = (if a < 0 then NaN else Fin (sqrt a))"
| "sqrt_num PInf = PInf"
| "sqrt_num _ = NaN"

fun atan2_num :: "number \<Rightarrow> number \<Rightarrow> number" where
  "atan2_num (Fin y) (Fin x) = Fin (atan2 y x)"
| "atan2_num NaN _ = NaN"
| "atan2_num _ NaN = NaN"
| "atan2_num (Fin y) PInf = Fin 0"
| "atan2_num (Fin y) NInf = Fin (if 0 \<le> y then pi else - pi)"
| "atan2_num PInf (Fin x) = Fin (pi / 2)"
| "atan2_num NInf (Fin x) = Fin (- (pi / 2))"
| "atan2_num PInf PInf = Fin (pi / 4)"
| "atan2_num NInf PInf = Fin (- (pi / 4))"
| "atan2_num PInf NInf = Fin (3 * pi / 4)"
| "atan2_num NInf NInf = Fin (- (3 * pi / 4))"

fun round_number :: "number \<Rightarrow> number" where
  "round_number (Fin a) = binary64 a"
| "round_number x = x"

definition rounded_Math :: Math where
  "rounded_Math =
     \<lparr>math_sin = (\<lambda>x. round_number (sin_num x)),
      math_cos = (\<lambda>x. round_number (cos_num x)),
      math_sqrt = (\<lambda>x. round_number (sqrt_num x)),
      math_atan2 = (\<lambda>y x. round_number (atan2_num y x))\<rparr>"

text \<open>Coordinates that are finite and of magnitude at most a bound.\<close>

definition bounded_coordinates :: "real \<Rightarrow> Coordinates \<Rightarrow> bool" where
  "bounded_coordinates B c \<longleftrightarrow>
     (\<exists>lat long. latitude c = Fin lat \<and> longitude c = Fin long \<and> \<bar>lat\<bar> \<le> B \<and> \<bar>long\<bar> \<le> B)"

section \<open>Properties of the geographic calculations\<close>

subsection \<open>Numbers, remainders and array reads at integers\<close>

lemma finite_num_iff: "finite_num x \<longleftrightarrow> x = Fin (real_of x)"
  by (cases x) simp_all

lemma trunc_toward_zero_nonneg: "0 \<le> x \<Longrightarrow> trunc_toward_zero x = \<lfloor>x\<rfloor>"
  by (simp add: trunc_toward_zero_def)

lemma mod_num_int:
  assumes "0 \<le> k" "0 < n"
  shows "mod_num (Fin (of_int k)) (Fin (of_int n)) = Fin (of_int (k mod n))"
proof -
  have "\<lfloor>(of_int k :: real) / of_int n\<rfloor> = k div n"
    by (simp add: floor_divide_of_int_eq)
  moreover have "(0::real) \<le> of_int k / of_int n" using assms by simp
  ultimately have "trunc_toward_zero (of_int k / of_int n) = k div n"
    by (simp add: trunc_toward_zero_nonneg)
  moreover have "(of_int k :: real) - of_int n * of_int (k div n) = of_int (k mod n)"
    by (simp add: minus_mult_div_eq_mod flip: of_int_mult of_int_diff)
  ultimately show ?thesis using assms by simp
qed

lemma array_get_int:
  "0 \<le> k \<Longrightarrow> nat k < length xs \<Longrightarrow> array_get xs (Fin (of_int k)) = Some (xs ! nat k)"
  by simp

lemma floor_360_range:
  fixes a :: real
  shows "0 \<le> a - 360 * of_int \<lfloor>a / 360\<rfloor>" "a - 360 * of_int \<lfloor>a / 360\<rfloor> < 360"
  using floor_divide_lower [of 360 a] floor_divide_upper [of 360 a]
  by (simp_all add: algebra_simps)

lemma mod_num_360_nonneg:
  assumes "0 \<le> a"
  shows "mod_num (Fin a) (Fin 360) = Fin (a - 360 * of_int \<lfloor>a / 360\<rfloor>)"
  using assms by (simp add: trunc_toward_zero_nonneg)

lemma mod_num_360_small:
  assumes "0 \<le> a" "a < 360"
  shows "mod_num (Fin a) (Fin 360) = Fin a"
proof -
  have "\<lfloor>a / 360\<rfloor> = 0" using assms by (intro floor_unique) simp_all
  then show ?thesis using assms by (simp add: mod_num_360_nonneg del: mod_num.simps)
qed

subsection \<open>Rounding to binary64\<close>

lemma floor_log2_eq:
  assumes "2 ^ n \<le> y" "y < 2 ^ Suc n"
  shows "\<lfloor>log 2 y\<rfloor> = int n"
proof -
  have pos: "0 < y" using assms(1) by (smt (verit) zero_less_power)
  have "real n \<le> log 2 y"
    using assms(1) pos by (simp add: le_log_iff powr_realpow)
  moreover have "log 2 y < real (Suc n)"
  proof -
    have "log 2 y < real (Suc n) \<longleftrightarrow> y < 2 powr real (Suc n)"
      using pos by (intro log_less_iff) simp_all
    also have "2 powr real (Suc n) = (2::real) ^ Suc n"
      by (rule powr_realpow) simp
    finally show ?thesis using assms(2) by simp
  qed
  ultimately show ?thesis by (intro floor_unique) simp_all
qed

lemma round_half_even_cases:
  "round_half_even y = \<lfloor>y\<rfloor> \<or> (round_half_even y = \<lfloor>y\<rfloor> + 1 \<and> 1 / 2 \<le> y - of_int \<lfloor>y\<rfloor>)"
  by (auto simp: round_half_even_def Let_def)

lemma round_half_even_upper: "of_int (round_half_even y) \<le> y + 1"
proof -
  have "of_int \<lfloor>y\<rfloor> \<le> y" by (rule of_int_floor_le)
  with round_half_even_cases [of y] show ?thesis
    by (elim disjE conjE) (simp_all, linarith)
qed

lemma round_half_even_pos:
  assumes "0 < round_half_even y"
  shows "0 < y"
proof -
  from round_half_even_cases [of y] show ?thesis
  proof
    assume "round_half_even y = \<lfloor>y\<rfloor>"
    with assms have "1 \<le> \<lfloor>y\<rfloor>" by simp
    then have "1 \<le> y" by (simp add: le_floor_iff)
    then show ?thesis by simp
  next
    assume h: "round_half_even y = \<lfloor>y\<rfloor> + 1 \<and> 1 / 2 \<le> y - of_int \<lfloor>y\<rfloor>"
    with assms have "0 \<le> \<lfloor>y\<rfloor>" by simp
    then have "(0::real) \<le> of_int \<lfloor>y\<rfloor>" by simp
    with h show ?thesis by linarith
  qed
qed

lemma binary64_quantum_pos: "0 < binary64_quantum x"
  by (simp add: binary64_quantum_def)

lemma binary64_quantum_small:
  assumes "0 < x" "x < 512"
  shows "binary64_quantum x \<le> 1"
proof -
  have "log 2 x < 9"
  proof -
    have "log 2 x < 9 \<longleftrightarrow> x < 2 powr 9"
      using assms(1) by (intro log_less_iff) simp_all
    also have "2 powr 9 = (512::real)" by (simp add: powr_numeral)
    finally show ?thesis using assms(2) by simp
  qed
  then have "\<lfloor>log 2 x\<rfloor> < 9" by (simp add: floor_less_iff)
  then have "of_int (max \<lfloor>log 2 \<bar>x\<bar>\<rfloor> (- 1022)) - 52 \<le> (0::real)"
    using assms(1) by simp
  then have "(2::real) powr (of_int (max \<lfloor>log 2 \<bar>x\<bar>\<rfloor> (- 1022)) - 52) \<le> 2 powr 0"
    by (intro powr_mono) simp_all
  then show ?thesis by (simp add: binary64_quantum_def)
qed

lemma binary64_not_NaN: "binary64 x \<noteq> NaN"
  by (simp add: binary64_def signed_inf_def Let_def)

lemma binary64_below_360:
  assumes "x < 360"
  shows "binary64 x \<noteq> PInf"
proof
  assume inf: "binary64 x = PInf"
  define q where "q = binary64_quantum x"
  define k where "k = round_half_even (x / q)"
  have q: "0 < q" unfolding q_def by (rule binary64_quantum_pos)
  from inf have x0: "x \<noteq> 0" by (auto simp: binary64_def)
  from inf x0 have big: "2 ^ 1024 \<le> \<bar>of_int k * q\<bar>" and pos: "0 < of_int k * q"
    by (auto simp: binary64_def Let_def signed_inf_def q_def k_def split: if_splits)
  from pos q have "0 < k" by (simp add: zero_less_mult_iff)
  then have "0 < x / q" unfolding k_def by (rule round_half_even_pos)
  with q have xpos: "0 < x" by (simp add: zero_less_divide_iff)
  with assms have "q \<le> 1" unfolding q_def by (intro binary64_quantum_small) simp_all
  have "of_int k \<le> x / q + 1" unfolding k_def by (rule round_half_even_upper)
  then have "of_int k * q \<le> (x / q + 1) * q" using q by (intro mult_right_mono) simp_all
  also have "\<dots> = x + q" using q by (simp add: field_simps)
  also have "\<dots> \<le> 361" using assms \<open>q \<le> 1\<close> by simp
  finally have "of_int k * q \<le> 361" .
  moreover have "(361::real) < 2 ^ 1024"
  proof -
    have "(361::real) < 2 ^ 9" by simp
    also have "\<dots> \<le> 2 ^ 1024" by (intro power_increasing) simp_all
    finally show ?thesis .
  qed
  ultimately show False using big pos by simp
qed

lemma binary64_270: "binary64 270 = Fin 270"
proof -
  have "\<lfloor>log 2 \<bar>270::real\<bar>\<rfloor> = int 8"
    by (rule floor_log2_eq) simp_all
  then have q: "binary64_quantum 270 = 1 / 2 ^ 44"
    by (simp add: binary64_quantum_def powr_minus_divide powr_numeral)
  have "round_half_even (270 / (1 / 2 ^ 44)) = 270 * 2 ^ 44"
    by (simp add: round_half_even_def)
  then show ?thesis
    unfolding binary64_def q Let_def by simp
qed

lemma round_half_even_near: "\<bar>of_int (round_half_even y) - y\<bar> \<le> 1 / 2"
proof -
  have f: "of_int \<lfloor>y\<rfloor> \<le> y" "y < of_int \<lfloor>y\<rfloor> + 1" by linarith+
  show ?thesis
    using f by (auto simp: round_half_even_def Let_def abs_le_iff)
qed

lemma round_half_even_nonneg: "0 \<le> y \<Longrightarrow> 0 \<le> round_half_even y"
  by (auto simp: round_half_even_def Let_def)

lemma round_half_even_nonpos: "y \<le> 0 \<Longrightarrow> round_half_even y \<le> 0"
proof -
  assume y: "y \<le> 0"
  show ?thesis
  proof (cases "y = of_int \<lfloor>y\<rfloor>")
    case True
    then have "round_half_even y = \<lfloor>y\<rfloor>" by (simp add: round_half_even_def Let_def)
    with y show ?thesis by (simp add: floor_le_zero)
  next
    case False
    have "of_int \<lfloor>y\<rfloor> \<le> y" by linarith
    with False have "of_int \<lfloor>y\<rfloor> < y" by linarith
    with y have "of_int \<lfloor>y\<rfloor> < (0::real)" by linarith
    then have "\<lfloor>y\<rfloor> < 0" by linarith
    then have "\<lfloor>y\<rfloor> + 1 \<le> 0" by linarith
    then show ?thesis by (auto simp: round_half_even_def Let_def)
  qed
qed

lemma binary64_quantum_error:
  assumes "x \<noteq> 0"
  shows "binary64_quantum x / 2 \<le> \<bar>x\<bar> / 2 ^ 53 + 1 / 2 ^ 1075"
proof (cases "- 1022 \<le> \<lfloor>log 2 \<bar>x\<bar>\<rfloor>")
  case True
  then have m: "max \<lfloor>log 2 \<bar>x\<bar>\<rfloor> (- 1022) = \<lfloor>log 2 \<bar>x\<bar>\<rfloor>" by simp
  have "of_int \<lfloor>log 2 \<bar>x\<bar>\<rfloor> \<le> log 2 \<bar>x\<bar>" by linarith
  then have "2 powr of_int \<lfloor>log 2 \<bar>x\<bar>\<rfloor> \<le> 2 powr log 2 \<bar>x\<bar>"
    by (intro powr_mono) simp_all
  also have "\<dots> = \<bar>x\<bar>" using assms by simp
  finally have le: "2 powr of_int \<lfloor>log 2 \<bar>x\<bar>\<rfloor> \<le> \<bar>x\<bar>" .
  have "binary64_quantum x = 2 powr of_int \<lfloor>log 2 \<bar>x\<bar>\<rfloor> * 2 powr (- 52)"
    unfolding binary64_quantum_def m by (simp add: powr_diff powr_minus field_simps)
  also have "(2::real) powr (- 52) = 1 / 2 ^ 52"
    by (simp add: powr_minus_divide powr_numeral)
  finally have "binary64_quantum x / 2 = 2 powr of_int \<lfloor>log 2 \<bar>x\<bar>\<rfloor> / 2 ^ 53" by simp
  also have "\<dots> \<le> \<bar>x\<bar> / 2 ^ 53" using le by (simp add: divide_right_mono)
  finally show ?thesis by simp
next
  case False
  then have m: "max \<lfloor>log 2 \<bar>x\<bar>\<rfloor> (- 1022) = - 1022" by simp
  have "binary64_quantum x = 2 powr (- 1074)"
    unfolding binary64_quantum_def m by simp
  also have "\<dots> = 1 / 2 ^ 1074" by (simp add: powr_minus_divide powr_numeral)
  finally have "binary64_quantum x / 2 = 1 / 2 ^ 1075" by simp
  then show ?thesis by simp
qed

lemma binary64_candidate_error:
  assumes "x \<noteq> 0"
  shows "\<bar>of_int (round_half_even (x / binary64_quantum x)) * binary64_quantum x - x\<bar>
           \<le> \<bar>x\<bar> / 2 ^ 53 + 1 / 2 ^ 1075"
proof -
  let ?q = "binary64_quantum x"
  define r where "r = of_int (round_half_even (x / ?q)) * ?q"
  have q: "0 < ?q" by (rule binary64_quantum_pos)
  have "\<bar>of_int (round_half_even (x / ?q)) - x / ?q\<bar> \<le> 1 / 2"
    by (rule round_half_even_near)
  then have "\<bar>of_int (round_half_even (x / ?q)) - x / ?q\<bar> * ?q \<le> 1 / 2 * ?q"
    using q by (intro mult_right_mono) simp_all
  moreover have "\<bar>of_int (round_half_even (x / ?q)) - x / ?q\<bar> * ?q = \<bar>r - x\<bar>"
  proof -
    have "r - x = (of_int (round_half_even (x / ?q)) - x / ?q) * ?q"
      using q by (simp add: r_def field_simps)
    then show ?thesis using q by (simp add: abs_mult)
  qed
  ultimately have "\<bar>r - x\<bar> \<le> ?q / 2" by simp
  with binary64_quantum_error [OF assms] show ?thesis unfolding r_def by linarith
qed

text \<open>
  The rounding error.  A real of magnitude at most \<open>2\<^sup>1\<^sup>0\<^sup>2\<^sup>3\<close> rounds to a finite number
  within the relative error \<open>2\<^sup>-\<^sup>5\<^sup>3\<close> (or the absolute error \<open>2\<^sup>-\<^sup>1\<^sup>0\<^sup>7\<^sup>5\<close> near zero), of the
  same sign.
\<close>

lemma binary64_error:
  assumes "\<bar>x\<bar> \<le> 2 ^ 1023"
  shows "\<exists>r. binary64 x = Fin r \<and> \<bar>r - x\<bar> \<le> \<bar>x\<bar> / 2 ^ 53 + 1 / 2 ^ 1075 \<and>
           (0 \<le> x \<longrightarrow> 0 \<le> r) \<and> (x \<le> 0 \<longrightarrow> r \<le> 0)"
proof (cases "x = 0")
  case True
  then show ?thesis by (simp add: binary64_def)
next
  case False
  define r where "r = of_int (round_half_even (x / binary64_quantum x)) * binary64_quantum x"
  have q: "0 < binary64_quantum x" by (rule binary64_quantum_pos)
  have err: "\<bar>r - x\<bar> \<le> \<bar>x\<bar> / 2 ^ 53 + 1 / 2 ^ 1075"
    unfolding r_def by (rule binary64_candidate_error [OF False])
  have "\<bar>r\<bar> \<le> \<bar>x\<bar> + \<bar>r - x\<bar>" by simp
  also have "\<dots> \<le> \<bar>x\<bar> + (\<bar>x\<bar> / 2 ^ 53 + 1 / 2 ^ 1075)" using err by simp
  also have "\<dots> \<le> 2 ^ 1023 + (2 ^ 1023 / 2 ^ 53 + 1 / 2 ^ 1075)"
    using assms by (intro add_mono divide_right_mono) simp_all
  also have "\<dots> < (2::real) ^ 1024" by simp
  finally have small: "\<bar>r\<bar> < 2 ^ 1024" .
  have eq: "binary64 x = Fin r"
    using False small by (simp add: binary64_def Let_def r_def)
  have pos: "0 \<le> r" if "0 \<le> x"
  proof -
    from that q have "0 \<le> x / binary64_quantum x" by simp
    then have "0 \<le> round_half_even (x / binary64_quantum x)" by (rule round_half_even_nonneg)
    with q show ?thesis by (simp add: r_def)
  qed
  have neg: "r \<le> 0" if "x \<le> 0"
  proof -
    from that q have "x / binary64_quantum x \<le> 0" by (simp add: divide_le_0_iff)
    then have "round_half_even (x / binary64_quantum x) \<le> 0" by (rule round_half_even_nonpos)
    with q show ?thesis by (simp add: r_def mult_le_0_iff)
  qed
  from eq err pos neg show ?thesis by blast
qed

lemma round_half_even_of_int: "round_half_even (of_int m) = m"
  by (simp add: round_half_even_def)

lemma round_half_even_unique:
  assumes "\<bar>y - of_int k\<bar> < 1 / 2"
  shows "round_half_even y = k"
proof -
  have f: "of_int \<lfloor>y\<rfloor> \<le> y" "y < of_int \<lfloor>y\<rfloor> + 1" by linarith+
  from assms have b: "of_int k - 1 / 2 < y" "y < of_int k + 1 / 2" by linarith+
  have "\<lfloor>y\<rfloor> = k \<or> \<lfloor>y\<rfloor> = k - 1"
  proof -
    from b f have "of_int \<lfloor>y\<rfloor> < (of_int k :: real) + 1 / 2" by linarith
    then have "of_int \<lfloor>y\<rfloor> < (of_int (k + 1) :: real)" by simp
    then have u: "\<lfloor>y\<rfloor> < k + 1" by (simp only: of_int_less_iff)
    from b f have "(of_int k :: real) - 3 / 2 < of_int \<lfloor>y\<rfloor>" by linarith
    then have "(of_int (k - 2) :: real) < of_int \<lfloor>y\<rfloor>" by simp
    then have l: "k - 2 < \<lfloor>y\<rfloor>" by (simp only: of_int_less_iff)
    from u l show ?thesis by linarith
  qed
  then show ?thesis
  proof
    assume e: "\<lfloor>y\<rfloor> = k"
    with b have "y - of_int \<lfloor>y\<rfloor> < 1 / 2" by simp
    then show ?thesis using e by (simp add: round_half_even_def Let_def)
  next
    assume e: "\<lfloor>y\<rfloor> = k - 1"
    with b have "1 / 2 < y - of_int \<lfloor>y\<rfloor>" by simp
    then show ?thesis using e by (simp add: round_half_even_def Let_def)
  qed
qed

lemma floor_log2_powr:
  assumes "2 powr of_int e \<le> y" "y < 2 powr (of_int e + 1)"
  shows "\<lfloor>log 2 y\<rfloor> = e"
proof -
  have "0 < (2::real) powr of_int e" by simp
  with assms(1) have pos: "0 < y" by linarith
  have "of_int e \<le> log 2 y"
    using assms(1) pos by (simp add: le_log_iff)
  moreover have "log 2 y < of_int e + 1"
    using assms(2) pos by (simp add: log_less_iff)
  ultimately show ?thesis by (intro floor_unique) simp_all
qed

text \<open>
  A real within half a quantum of a multiple of the quantum of its binade rounds to that
  multiple.
\<close>

lemma binary64_nearest:
  assumes j: "- 1074 \<le> j" "j \<le> 970"
      and lo: "2 powr (of_int j + 52) \<le> \<bar>x\<bar>" and hi: "\<bar>x\<bar> < 2 powr (of_int j + 53)"
      and near: "\<bar>x - of_int k * 2 powr of_int j\<bar> < 2 powr of_int j / 2"
  shows "binary64 x = Fin (of_int k * 2 powr of_int j)"
proof -
  let ?q = "(2::real) powr of_int j"
  have qpos: "0 < ?q" by simp
  have "0 < (2::real) powr (of_int j + 52)" by simp
  with lo have x0: "x \<noteq> 0" by auto
  have "\<lfloor>log 2 \<bar>x\<bar>\<rfloor> = j + 52"
    using lo hi by (intro floor_log2_powr) (simp_all add: add.assoc)
  then have q: "binary64_quantum x = ?q"
    using j by (simp add: binary64_quantum_def)
  have "\<bar>x / ?q - of_int k\<bar> * ?q = \<bar>x - of_int k * ?q\<bar>"
  proof -
    have "x - of_int k * ?q = (x / ?q - of_int k) * ?q" by (simp add: field_simps)
    then show ?thesis by (simp add: abs_mult)
  qed
  with near have "\<bar>x / ?q - of_int k\<bar> * ?q < 1 / 2 * ?q" by simp
  then have n: "\<bar>x / ?q - of_int k\<bar> < 1 / 2" using qpos by (simp only: mult_less_cancel_right_pos)
  then have r: "round_half_even (x / ?q) = k" by (rule round_half_even_unique)
  have "\<bar>of_int k\<bar> \<le> \<bar>x / ?q\<bar> + \<bar>x / ?q - of_int k\<bar>" by linarith
  also have "\<dots> < \<bar>x\<bar> / ?q + 1 / 2" using n by (simp add: abs_divide)
  also have "\<bar>x\<bar> / ?q < 2 powr (of_int j + 53) / ?q" using hi qpos by (simp add: divide_strict_right_mono)
  also have "2 powr (of_int j + 53) / ?q = 2 ^ 53" by (simp add: powr_add powr_numeral)
  finally have "\<bar>(of_int k :: real)\<bar> < 2 ^ 53 + 1 / 2" by simp
  then have "\<bar>(of_int k :: real)\<bar> < of_int (2 ^ 53 + 1)" by simp
  then have "\<bar>k\<bar> < 2 ^ 53 + 1" by (simp only: of_int_abs [symmetric] of_int_less_iff)
  then have k: "\<bar>(of_int k :: real)\<bar> \<le> 2 ^ 53" by simp
  have "?q \<le> 2 powr 970" using j by (intro powr_mono) simp_all
  also have "(2::real) powr 970 = 2 ^ 970" by (simp add: powr_numeral)
  finally have q970: "?q \<le> 2 ^ 970" .
  have "\<bar>of_int k * ?q\<bar> = \<bar>of_int k\<bar> * ?q" by (simp add: abs_mult)
  also have "\<dots> \<le> 2 ^ 53 * 2 ^ 970" using k q970 by (intro mult_mono) simp_all
  also have "\<dots> < (2::real) ^ 1024" by simp
  finally have small: "\<bar>of_int k * ?q\<bar> < 2 ^ 1024" .
  show ?thesis using x0 small by (simp add: binary64_def Let_def q r)
qed

lemma binary64_nearest_frac:
  assumes "n \<le> 1074"
      and "2 ^ 52 / 2 ^ n \<le> \<bar>x\<bar>" and "\<bar>x\<bar> < 2 ^ 53 / 2 ^ n"
      and "\<bar>x - of_int k / 2 ^ n\<bar> < 1 / 2 ^ Suc n"
  shows "binary64 x = Fin (of_int k / 2 ^ n)"
proof -
  have p: "(2::real) powr of_int (- int n) = 1 / 2 ^ n"
    by (simp add: powr_minus_divide powr_realpow)
  have "(2::real) powr (of_int (- int n) + 52) = 2 powr of_int (- int n) * 2 powr 52"
    by (rule powr_add)
  then have p52: "(2::real) powr (of_int (- int n) + 52) = 2 ^ 52 / 2 ^ n"
    unfolding p by (simp add: powr_numeral)
  have "(2::real) powr (of_int (- int n) + 53) = 2 powr of_int (- int n) * 2 powr 53"
    by (rule powr_add)
  then have p53: "(2::real) powr (of_int (- int n) + 53) = 2 ^ 53 / 2 ^ n"
    unfolding p by (simp add: powr_numeral)
  have "binary64 x = Fin (of_int k * 2 powr of_int (- int n))"
  proof (rule binary64_nearest)
    show "- 1074 \<le> - int n" using assms(1) by simp
    show "- int n \<le> 970" by simp
    show "2 powr (of_int (- int n) + 52) \<le> \<bar>x\<bar>" unfolding p52 by (rule assms(2))
    show "\<bar>x\<bar> < 2 powr (of_int (- int n) + 53)" unfolding p53 by (rule assms(3))
    show "\<bar>x - of_int k * 2 powr of_int (- int n)\<bar> < 2 powr of_int (- int n) / 2"
      unfolding p using assms(4) by simp
  qed
  then show ?thesis unfolding p by simp
qed

text \<open>A multiple of a quantum with a significand below \<open>2\<^sup>5\<^sup>3\<close> is a binary64 value.\<close>

lemma binary64_representable:
  assumes k: "\<bar>k\<bar> < 2 ^ 53" and j: "- 1074 \<le> j" "j \<le> 970"
  shows "binary64 (of_int k * 2 powr of_int j) = Fin (of_int k * 2 powr of_int j)"
proof (cases "k = 0")
  case True
  then show ?thesis by (simp add: binary64_def)
next
  case False
  let ?x = "of_int k * 2 powr of_int j :: real"
  have x0: "?x \<noteq> 0" using False by simp
  then have ax: "0 < \<bar>?x\<bar>" by simp
  define e where "e = max \<lfloor>log 2 \<bar>?x\<bar>\<rfloor> (- 1022)"
  have "e - 52 \<le> j"
  proof (cases "- 1022 \<le> \<lfloor>log 2 \<bar>?x\<bar>\<rfloor>")
    case False
    then have "e = - 1022" by (simp add: e_def)
    with j show ?thesis by simp
  next
    case True
    then have e: "e = \<lfloor>log 2 \<bar>?x\<bar>\<rfloor>" by (simp add: e_def)
    have "\<bar>?x\<bar> = \<bar>of_int k\<bar> * 2 powr of_int j" by (simp add: abs_mult)
    also have "\<dots> < 2 ^ 53 * 2 powr of_int j"
      using k by (intro mult_strict_right_mono) (simp_all flip: of_int_abs)
    also have "\<dots> = 2 powr (of_int j + 53)" by (simp add: powr_add powr_numeral)
    finally have "log 2 \<bar>?x\<bar> < of_int j + 53"
      using ax by (simp add: log_less_iff)
    moreover have "of_int \<lfloor>log 2 \<bar>?x\<bar>\<rfloor> \<le> log 2 \<bar>?x\<bar>" by linarith
    ultimately have "(of_int \<lfloor>log 2 \<bar>?x\<bar>\<rfloor> :: real) < of_int j + 53" by linarith
    then have "(of_int \<lfloor>log 2 \<bar>?x\<bar>\<rfloor> :: real) < of_int (j + 53)" by simp
    then have "\<lfloor>log 2 \<bar>?x\<bar>\<rfloor> < j + 53" by (simp only: of_int_less_iff)
    with e show ?thesis by simp
  qed
  then obtain d where d: "j = e - 52 + int d"
    by (metis add.commute diff_add_cancel nonneg_int_cases diff_ge_0_iff_ge)
  have q: "binary64_quantum ?x = 2 powr (of_int e - 52)"
    by (simp add: binary64_quantum_def e_def)
  have "2 powr of_int j = 2 powr (of_int e - 52) * (2::real) ^ d"
    unfolding d by (simp add: powr_add powr_realpow)
  then have xq: "?x = of_int (k * 2 ^ d) * 2 powr (of_int e - 52)" by simp
  have "?x / 2 powr (of_int e - 52) = of_int (k * 2 ^ d)"
    by (subst xq) simp
  then have r: "round_half_even (?x / 2 powr (of_int e - 52)) = k * 2 ^ d"
    by (simp only: round_half_even_of_int)
  have "2 powr of_int j \<le> (2::real) powr 970" using j by (intro powr_mono) simp_all
  also have "(2::real) powr 970 = 2 ^ 970" by (simp add: powr_numeral)
  finally have q970: "2 powr of_int j \<le> (2::real) ^ 970" .
  have "\<bar>?x\<bar> = \<bar>of_int k\<bar> * 2 powr of_int j" by (simp add: abs_mult)
  also have "\<dots> \<le> 2 ^ 53 * 2 ^ 970"
    using k q970 by (intro mult_mono) (simp_all flip: of_int_abs)
  also have "\<dots> < (2::real) ^ 1024" by simp
  finally have small: "\<bar>?x\<bar> < 2 ^ 1024" .
  have "binary64 ?x = Fin (of_int (k * 2 ^ d) * 2 powr (of_int e - 52))"
    using x0 small unfolding binary64_def Let_def q r xq [symmetric] by simp
  then show ?thesis by (simp only: xq [symmetric])
qed

lemma binary64_int:
  assumes "\<bar>k\<bar> < 2 ^ 53"
  shows "binary64 (of_int k) = Fin (of_int k)"
  using binary64_representable [OF assms, of 0] by simp

lemma binary64_dyadic:
  assumes "\<bar>k\<bar> < 2 ^ 53" "n \<le> 1074"
  shows "binary64 (of_int k / 2 ^ n) = Fin (of_int k / 2 ^ n)"
proof -
  have p: "(2::real) powr of_int (- int n) = 1 / 2 ^ n"
    by (simp add: powr_minus_divide powr_realpow)
  have "binary64 (of_int k * 2 powr of_int (- int n)) = Fin (of_int k * 2 powr of_int (- int n))"
    using assms by (intro binary64_representable) simp_all
  then show ?thesis unfolding p by simp
qed

text \<open>Integers below \<open>2\<^sup>5\<^sup>3\<close> written as numerals, and a half, are binary64 values.\<close>

lemma binary64_zero [simp]: "binary64 0 = Fin 0"
  by (simp add: binary64_def)

lemma binary64_one [simp]: "binary64 1 = Fin 1"
  using binary64_int [of 1] by simp

lemma binary64_numeral [simp]:
  "(numeral n :: int) < 2 ^ 53 \<Longrightarrow> binary64 (numeral n) = Fin (numeral n)"
  using binary64_int [of "numeral n"] by simp

lemma binary64_neg_numeral [simp]:
  "(numeral n :: int) < 2 ^ 53 \<Longrightarrow> binary64 (- numeral n) = Fin (- numeral n)"
  using binary64_int [of "- numeral n"] by simp

lemma binary64_half [simp]: "binary64 (1 / 2) = Fin (1 / 2)"
  using binary64_dyadic [of 1 1] by simp

text \<open>Bounds that the rounding keeps.\<close>

lemma binary64_bounded:
  assumes "\<bar>x\<bar> \<le> B" "B \<le> 2 ^ 1023"
  shows "\<exists>r. binary64 x = Fin r \<and> \<bar>r\<bar> \<le> B + B / 2 ^ 53 + 1 / 2 ^ 1075 \<and>
           \<bar>r - x\<bar> \<le> B / 2 ^ 53 + 1 / 2 ^ 1075 \<and> (0 \<le> x \<longrightarrow> 0 \<le> r)"
proof -
  from assms have "\<bar>x\<bar> \<le> 2 ^ 1023" by linarith
  from binary64_error [OF this] obtain r where
    r: "binary64 x = Fin r" "\<bar>r - x\<bar> \<le> \<bar>x\<bar> / 2 ^ 53 + 1 / 2 ^ 1075" "0 \<le> x \<longrightarrow> 0 \<le> r"
    by blast
  have "\<bar>x\<bar> / 2 ^ 53 \<le> B / 2 ^ 53" using assms(1) by (simp add: divide_right_mono)
  with r(2) have e: "\<bar>r - x\<bar> \<le> B / 2 ^ 53 + 1 / 2 ^ 1075" by linarith
  then have "\<bar>r\<bar> \<le> B + B / 2 ^ 53 + 1 / 2 ^ 1075" using assms(1) by linarith
  with r e show ?thesis by blast
qed

lemma round_half_even_le_int:
  assumes "y \<le> of_int n"
  shows "round_half_even y \<le> n"
proof -
  from assms have f: "\<lfloor>y\<rfloor> \<le> n" by (simp add: floor_le_iff)
  from round_half_even_cases [of y] show ?thesis
  proof
    assume "round_half_even y = \<lfloor>y\<rfloor>"
    with f show ?thesis by simp
  next
    assume h: "round_half_even y = \<lfloor>y\<rfloor> + 1 \<and> 1 / 2 \<le> y - of_int \<lfloor>y\<rfloor>"
    have "\<lfloor>y\<rfloor> \<noteq> n"
    proof
      assume "\<lfloor>y\<rfloor> = n"
      with h assms show False by simp
    qed
    with f h show ?thesis by simp
  qed
qed

lemma round_half_even_ge_int:
  assumes "of_int n \<le> y"
  shows "n \<le> round_half_even y"
proof -
  from assms have "n \<le> \<lfloor>y\<rfloor>" by (simp add: le_floor_iff)
  with round_half_even_cases [of y] show ?thesis by auto
qed

lemma binary64_power_bound:
  assumes "\<bar>x\<bar> \<le> 2 ^ n" "n \<le> 1023"
  shows "\<exists>r. binary64 x = Fin r \<and> \<bar>r\<bar> \<le> 2 ^ n"
proof (cases "x = 0")
  case True
  then show ?thesis by simp
next
  case False
  define e where "e = max \<lfloor>log 2 \<bar>x\<bar>\<rfloor> (- 1022)"
  define q where "q = (2::real) powr (of_int e - 52)"
  define k where "k = round_half_even (x / q)"
  have qpos: "0 < q" by (simp add: q_def)
  have quantum: "binary64_quantum x = q" by (simp add: binary64_quantum_def q_def e_def)
  have "log 2 \<bar>x\<bar> \<le> log 2 (2 ^ n)"
    using False assms(1) by (subst log_le_cancel_iff) simp_all
  also have "\<dots> = real n" by (simp add: log_nat_power)
  finally have "\<lfloor>log 2 \<bar>x\<bar>\<rfloor> \<le> int n" by (simp add: floor_le_iff)
  then have en: "e \<le> int n" by (simp add: e_def)
  define d where "d = nat (int n - e + 52)"
  have d: "int d = int n - e + 52" using en by (simp add: d_def)
  have "(of_int (int d) :: real) = of_int (int n) - of_int e + 52" unfolding d by simp
  then have dr: "of_int (int n) = (of_int e - 52) + real d" by simp
  have "(2::real) ^ n = 2 powr (of_int (int n))" by (simp add: powr_realpow)
  also note dr
  also have "(2::real) powr ((of_int e - 52) + real d) = q * 2 ^ d"
    by (simp add: powr_add powr_realpow q_def)
  finally have pw: "(2::real) ^ n = q * 2 ^ d" .
  have "x / q \<le> \<bar>x\<bar> / q" using qpos by (simp add: divide_right_mono)
  also have "\<dots> \<le> 2 ^ n / q" using assms(1) qpos by (simp add: divide_right_mono)
  also have "\<dots> = of_int (2 ^ d)" using qpos by (simp add: pw)
  finally have "k \<le> 2 ^ d" unfolding k_def by (rule round_half_even_le_int)
  moreover have "of_int (- (2 ^ d)) \<le> x / q"
  proof -
    have "- (2 ^ n / q) \<le> - (\<bar>x\<bar> / q)" using assms(1) qpos by (simp add: divide_right_mono)
    also have "\<dots> \<le> x / q" using qpos by (simp add: field_simps)
    finally show ?thesis using qpos by (simp add: pw)
  qed
  then have "- (2 ^ d) \<le> k" unfolding k_def by (rule round_half_even_ge_int)
  ultimately have "\<bar>k\<bar> \<le> 2 ^ d" by simp
  then have "\<bar>of_int k :: real\<bar> \<le> of_int (2 ^ d)" by (simp only: of_int_abs [symmetric] of_int_le_iff)
  then have "\<bar>of_int k * q\<bar> \<le> 2 ^ d * q" using qpos by (simp add: abs_mult)
  then have b: "\<bar>of_int k * q\<bar> \<le> 2 ^ n" by (simp add: pw mult.commute)
  have "(2::real) ^ n \<le> 2 ^ 1023" using assms(2) by (intro power_increasing) simp_all
  also have "\<dots> < (2::real) ^ 1024" by simp
  finally have "\<bar>of_int k * q\<bar> < 2 ^ 1024" using b by linarith
  then have "binary64 x = Fin (of_int k * q)"
    using False by (simp add: binary64_def Let_def quantum k_def)
  with b show ?thesis by blast
qed

subsection \<open>Cardinal direction\<close>

text \<open>
  The label at an index that is an integer, and the quotient by 45 of a bearing between 0
  and 360: it is the exact quotient up to the rounding.
\<close>

lemma getCardinalDirection_quotient:
  assumes "divide_binary64 (Fin b) (Fin 45) = Fin q" "0 \<le> q"
  shows "getCardinalDirection (Fin b) = Some (directions ! nat (\<lfloor>q + 1 / 2\<rfloor> mod 8))"
proof -
  let ?k = "\<lfloor>q + 1 / 2\<rfloor>"
  have k0: "0 \<le> ?k" using assms(2) by simp
  have m: "mod_num (Fin (of_int ?k)) (Fin 8) = Fin (of_int (?k mod 8))"
    using mod_num_int [OF k0, of 8] by simp
  have "0 \<le> ?k mod 8" "?k mod 8 < 8" by simp_all
  then have "array_get directions (Fin (of_int (?k mod 8))) = Some (directions ! nat (?k mod 8))"
    by (intro array_get_int) (simp_all add: directions_def)
  then show ?thesis
    using assms(1)
    by (simp add: getCardinalDirection_def m del: array_get.simps mod_num.simps divide_binary64.simps)
qed

lemma bearing_quotient:
  assumes "0 \<le> b" "b \<le> 360"
  shows "\<exists>q. divide_binary64 (Fin b) (Fin 45) = Fin q \<and> 0 \<le> q \<and> \<bar>q - b / 45\<bar> \<le> 1 / 2 ^ 49"
proof -
  have "\<bar>b / 45\<bar> \<le> 8" using assms by simp
  also have "\<dots> \<le> (2::real) ^ 1023" by simp
  finally have "\<bar>b / 45\<bar> \<le> 2 ^ 1023" .
  from binary64_error [OF this] obtain q where
    q: "binary64 (b / 45) = Fin q" and e: "\<bar>q - b / 45\<bar> \<le> \<bar>b / 45\<bar> / 2 ^ 53 + 1 / 2 ^ 1075"
    and q0: "0 \<le> q"
    using assms(1) by auto
  have "\<bar>b / 45\<bar> / 2 ^ 53 \<le> 8 / 2 ^ 53" using assms by simp
  with e have "\<bar>q - b / 45\<bar> \<le> 8 / 2 ^ 53 + 1 / 2 ^ 1075" by linarith
  also have "\<dots> \<le> (1::real) / 2 ^ 49" by simp
  finally show ?thesis using q q0 by auto
qed

lemma getCardinalDirection_sector:
  assumes "0 \<le> b" "b \<le> 360"
    and "45 * of_int k - 45 / 2 + 1 / 2 ^ 40 \<le> b" "b \<le> 45 * of_int k + 45 / 2 - 1 / 2 ^ 40"
  shows "getCardinalDirection (Fin b) = Some (directions ! nat (k mod 8))"
proof -
  from bearing_quotient [OF assms(1,2)] obtain q where
    q: "divide_binary64 (Fin b) (Fin 45) = Fin q" "0 \<le> q" "\<bar>q - b / 45\<bar> \<le> 1 / 2 ^ 49"
    by blast
  have lo: "of_int k - 1 / 2 + 1 / (45 * 2 ^ 40) \<le> b / 45" using assms(3) by (simp add: field_simps)
  have hi: "b / 45 \<le> of_int k + 1 / 2 - 1 / (45 * 2 ^ 40)" using assms(4) by (simp add: field_simps)
  have m: "(1::real) / 2 ^ 49 < 1 / (45 * 2 ^ 40)" by simp
  have "of_int k \<le> q + 1 / 2" using lo q(3) m by linarith
  moreover have "q + 1 / 2 < of_int k + 1" using hi q(3) m by linarith
  ultimately have "\<lfloor>q + 1 / 2\<rfloor> = k" by (intro floor_unique) simp_all
  with getCardinalDirection_quotient [OF q(1,2)] show ?thesis by simp
qed

text \<open>The quotients of the bearings 44, 46 and 22.5.\<close>

lemma quotient_44:
  "divide_binary64 (Fin 44) (Fin 45) = Fin (8807039271302303 / 2 ^ 53)"
  using binary64_nearest_frac [of 53 "44 / 45" 8807039271302303] by simp

lemma quotient_46:
  "divide_binary64 (Fin 46) (Fin 45) = Fin (4603679619089840 / 2 ^ 52)"
  using binary64_nearest_frac [of 52 "46 / 45" 4603679619089840] by simp

lemma quotient_22_5:
  "divide_binary64 (Fin (45 / 2)) (Fin 45) = Fin (1 / 2)"
  by simp

lemma getCardinalDirection_44: "getCardinalDirection (Fin 44) = Some ''NE''"
proof -
  have "\<lfloor>(8807039271302303::real) / 2 ^ 53 + 1 / 2\<rfloor> = 1"
    by (rule floor_unique) simp_all
  with getCardinalDirection_quotient [OF quotient_44] show ?thesis
    by (simp add: directions_def)
qed

text \<open>
  Claim C2, as amended.  For a bearing \<open>b\<close> between 0 and 360, \<open>getCardinalDirection\<close>
  returns the label at index \<open>round q mod 8\<close> of the list N, NE, E, SE, S, SW, W, NW,
  where \<open>q\<close> is the quotient \<open>b / 45\<close> rounded to binary64, within \<open>2\<^sup>-\<^sup>4\<^sup>9\<close> of \<open>b / 45\<close>, and
  \<open>round\<close> takes a tie up.  So a bearing in the sector from \<open>45 k - 22.5\<close> to
  \<open>45 k + 22.5\<close>, at least \<open>2\<^sup>-\<^sup>4\<^sup>0\<close> away from both ends, gets the label \<open>k mod 8\<close>: the
  sectors meet at the odd multiples of 22.5 degrees, and at 22.5 itself the label is
  already NE.  In particular the bearings 0, 90, 44 and 46 give N, E, NE and NE: 44
  degrees lies beyond the boundary at 22.5 degrees, in the sector of NE.
\<close>

theorem getCardinalDirection_sectors:
  "getCardinalDirection (Fin 0) = Some ''N'' \<and>
   getCardinalDirection (Fin 90) = Some ''E'' \<and>
   getCardinalDirection (Fin 44) = Some ''NE'' \<and>
   getCardinalDirection (Fin 46) = Some ''NE'' \<and>
   getCardinalDirection (Fin (45 / 2)) = Some ''NE'' \<and>
   (\<forall>b. 0 \<le> b \<and> b \<le> 360 \<longrightarrow>
      (\<exists>q. divide_binary64 (Fin b) (Fin 45) = Fin q \<and> \<bar>q - b / 45\<bar> \<le> 1 / 2 ^ 49 \<and>
         getCardinalDirection (Fin b) = Some (directions ! nat (\<lfloor>q + 1 / 2\<rfloor> mod 8)))) \<and>
   (\<forall>b k. 0 \<le> b \<and> b \<le> 360 \<and>
      45 * of_int k - 45 / 2 + 1 / 2 ^ 40 \<le> b \<and> b \<le> 45 * of_int k + 45 / 2 - 1 / 2 ^ 40 \<longrightarrow>
      getCardinalDirection (Fin b) = Some (directions ! nat (k mod 8)))"
proof -
  have n: "getCardinalDirection (Fin 0) = Some ''N''"
    using getCardinalDirection_sector [of 0 0] by (simp add: directions_def)
  have e: "getCardinalDirection (Fin 90) = Some ''E''"
    using getCardinalDirection_sector [of 90 2] by (simp add: directions_def)
  have "\<lfloor>(4603679619089840::real) / 2 ^ 52 + 1 / 2\<rfloor> = 1"
    by (rule floor_unique) simp_all
  with getCardinalDirection_quotient [OF quotient_46]
  have ne: "getCardinalDirection (Fin 46) = Some ''NE''"
    by (simp add: directions_def)
  have "\<lfloor>(1::real) / 2 + 1 / 2\<rfloor> = 1" by simp
  with getCardinalDirection_quotient [OF quotient_22_5]
  have tie: "getCardinalDirection (Fin (45 / 2)) = Some ''NE''"
    by (simp add: directions_def)
  have q: "\<exists>q. divide_binary64 (Fin b) (Fin 45) = Fin q \<and> \<bar>q - b / 45\<bar> \<le> 1 / 2 ^ 49 \<and>
      getCardinalDirection (Fin b) = Some (directions ! nat (\<lfloor>q + 1 / 2\<rfloor> mod 8))"
    if "0 \<le> b \<and> b \<le> 360" for b
  proof -
    from that bearing_quotient [of b] obtain q where
      q: "divide_binary64 (Fin b) (Fin 45) = Fin q" "0 \<le> q" "\<bar>q - b / 45\<bar> \<le> 1 / 2 ^ 49"
      by blast
    with getCardinalDirection_quotient [OF q(1,2)] show ?thesis by blast
  qed
  from n e getCardinalDirection_44 ne tie q getCardinalDirection_sector show ?thesis
    by blast
qed

text \<open>
  The theorem at the bearings 100 (sector 2, east) and 359 (sector 8, which is north
  again).
\<close>

theorem getCardinalDirection_sectors_witness:
  "(0::real) \<le> 100 \<and> (100::real) \<le> 360 \<and>
   45 * of_int 2 - 45 / 2 + 1 / 2 ^ 40 \<le> (100::real) \<and>
   (100::real) \<le> 45 * of_int 2 + 45 / 2 - 1 / 2 ^ 40 \<and>
   getCardinalDirection (Fin 100) = Some ''E'' \<and>
   getCardinalDirection (Fin 359) = Some ''N''"
proof -
  have "getCardinalDirection (Fin 100) = Some (directions ! nat (2 mod 8))"
    using getCardinalDirection_sectors by (elim conjE allE [of _ 100] allE [of _ 2]) simp
  moreover have "getCardinalDirection (Fin 359) = Some (directions ! nat (8 mod 8))"
    using getCardinalDirection_sectors by (elim conjE allE [of _ 359] allE [of _ 8]) simp
  ultimately show ?thesis by (simp add: directions_def)
qed

text \<open>
  Claim C2 as stated asks for N at the bearing 44.  The code answers NE there.
\<close>

theorem getCardinalDirection_44_counterexample:
  "getCardinalDirection (Fin 44) \<noteq> Some ''N''"
  by (simp add: getCardinalDirection_44)

subsection \<open>Distance formatting\<close>

lemma FEET_PER_METER_value: "FEET_PER_METER = Fin (7387794900731109 / 2 ^ 51)"
  unfolding FEET_PER_METER_def
  using binary64_nearest_frac [of 51 "328084 / 100000" 7387794900731109] by simp

lemma formatDistance_feet:
  assumes "mul_binary64 (Fin m) FEET_PER_METER = Fin feet" "feet < 1000"
  shows "formatDistance toLocaleString (Fin m) =
           \<lparr>value_text = toLocaleString (Fin (of_int \<lfloor>feet + 1 / 2\<rfloor>)), unit_text = ''ft''\<rparr>"
  using assms by (simp add: formatDistance_def DISTANCE_THRESHOLD_FEET_def)

lemma formatDistance_meters:
  assumes "\<not> less_num (mul_binary64 (Fin m) FEET_PER_METER) (Fin 1000)"
  shows "formatDistance toLocaleString (Fin m) =
           \<lparr>value_text =
              toLocaleString (mul_binary64 (round_num (divide_binary64 (Fin m) (Fin 10))) (Fin 10)),
            unit_text = ''m''\<rparr>"
  using assms by (simp add: formatDistance_def DISTANCE_THRESHOLD_FEET_def Let_def)

text \<open>
  The feet that the code computes are the product with 3.28084 up to the two roundings,
  of the literal and of the product.
\<close>

lemma feet_error:
  assumes "0 \<le> m" "m \<le> 10 ^ 15"
  shows "\<exists>feet. mul_binary64 (Fin m) FEET_PER_METER = Fin feet \<and>
           \<bar>feet - m * (328084 / 100000)\<bar> \<le> m / 2 ^ 50 + 1 / 2 ^ 1075"
proof -
  let ?c = "7387794900731109 / 2 ^ 51 :: real"
  have "\<bar>m * ?c\<bar> \<le> 10 ^ 15 * 4" using assms by (simp add: abs_mult)
  also have "\<dots> \<le> (2::real) ^ 1023" by simp
  finally have "\<bar>m * ?c\<bar> \<le> 2 ^ 1023" .
  from binary64_error [OF this] obtain feet where
    f: "binary64 (m * ?c) = Fin feet" and e: "\<bar>feet - m * ?c\<bar> \<le> \<bar>m * ?c\<bar> / 2 ^ 53 + 1 / 2 ^ 1075"
    by blast
  have "m * ?c \<le> m * 4" using assms(1) by (intro mult_left_mono) simp_all
  moreover have "\<bar>m * ?c\<bar> = m * ?c" using assms(1) by (simp add: abs_mult)
  ultimately have "\<bar>m * ?c\<bar> / 2 ^ 53 \<le> m * 4 / 2 ^ 53"
    by (simp only: divide_right_mono zero_le_power zero_le_numeral)
  moreover have "\<bar>m * ?c - m * (328084 / 100000)\<bar> \<le> m / 2 ^ 52"
  proof -
    have "m * ?c - m * (328084 / 100000) = m * (?c - 328084 / 100000)" by (simp add: algebra_simps)
    moreover have "\<bar>?c - 328084 / 100000 :: real\<bar> \<le> 1 / 2 ^ 52" by simp
    ultimately have "\<bar>m * ?c - m * (328084 / 100000)\<bar> \<le> m * (1 / 2 ^ 52)"
      using assms(1) by (simp only: abs_mult abs_of_nonneg mult_left_mono)
    then show ?thesis by simp
  qed
  ultimately have "\<bar>feet - m * (328084 / 100000)\<bar> \<le> m * 4 / 2 ^ 53 + m / 2 ^ 52 + 1 / 2 ^ 1075"
    using e by linarith
  also have "\<dots> \<le> m / 2 ^ 50 + 1 / 2 ^ 1075" using assms(1) by simp
  finally show ?thesis using f by (auto simp: FEET_PER_METER_value)
qed

text \<open>
  The tens of meters that the code computes: the quotient by 10 is rounded to binary64,
  then to the nearest integer; the product of that integer with 10 is exact.
\<close>

lemma rounded_meters:
  assumes "0 \<le> m" "m \<le> 10 ^ 15"
  shows "\<exists>q. divide_binary64 (Fin m) (Fin 10) = Fin q \<and>
           \<bar>q - m / 10\<bar> \<le> m / (10 * 2 ^ 53) + 1 / 2 ^ 1075 \<and>
           mul_binary64 (round_num (divide_binary64 (Fin m) (Fin 10))) (Fin 10) =
             Fin (of_int \<lfloor>q + 1 / 2\<rfloor> * 10)"
proof -
  have "\<bar>m / 10\<bar> \<le> 10 ^ 15" using assms by simp
  also have "\<dots> \<le> (2::real) ^ 1023" by simp
  finally have "\<bar>m / 10\<bar> \<le> 2 ^ 1023" .
  from binary64_error [OF this] obtain q where
    q: "binary64 (m / 10) = Fin q" and e: "\<bar>q - m / 10\<bar> \<le> \<bar>m / 10\<bar> / 2 ^ 53 + 1 / 2 ^ 1075"
    and q0: "0 \<le> q"
    using assms(1) by auto
  from e assms have e': "\<bar>q - m / 10\<bar> \<le> m / (10 * 2 ^ 53) + 1 / 2 ^ 1075" by simp
  have "q \<le> m / 10 + (m / (10 * 2 ^ 53) + 1 / 2 ^ 1075)" using e' by linarith
  also have "\<dots> \<le> 10 ^ 15 / 10 + (10 ^ 15 / (10 * 2 ^ 53) + 1 / 2 ^ 1075)"
    using assms by (intro add_mono divide_right_mono) simp_all
  also have "\<dots> \<le> 10 ^ 14 + 1" by simp
  finally have qb: "q \<le> 10 ^ 14 + 1" .
  define k where "k = \<lfloor>q + 1 / 2\<rfloor>"
  have k0: "0 \<le> k" using q0 by (simp add: k_def)
  have "of_int k \<le> q + 1 / 2" unfolding k_def by (rule of_int_floor_le)
  with qb have "(of_int k :: real) \<le> 10 ^ 14 + 2" by linarith
  then have "(of_int k :: real) \<le> of_int (10 ^ 14 + 2)" by simp
  then have "k \<le> 10 ^ 14 + 2" by (simp only: of_int_le_iff)
  with k0 have "\<bar>k * 10\<bar> < 2 ^ 53" by simp
  from binary64_int [OF this] have "binary64 (of_int k * 10) = Fin (of_int k * 10)" by simp
  then have "mul_binary64 (round_num (divide_binary64 (Fin m) (Fin 10))) (Fin 10) =
      Fin (of_int \<lfloor>q + 1 / 2\<rfloor> * 10)"
    using q by (simp add: k_def)
  with q e' show ?thesis by auto
qed

text \<open>
  Claim C6.  For a distance \<open>m \<ge> 0\<close> in meters, \<open>formatDistance\<close> converts to feet: the
  product with 3.28084, rounded to binary64.  When the feet are below 1000 it returns
  them rounded to a whole number (a tie going up), as the host renders it, with the unit
  \<open>ft\<close>; when they round to 999, on a host that renders 999 as \<open>999\<close>, the value is
  \<open>999\<close>.  Otherwise it returns the meters rounded to the nearest ten,
  \<open>round (m / 10) * 10\<close>, with the unit \<open>m\<close>.  Up to \<open>10\<^sup>1\<^sup>5\<close> meters the feet differ from
  \<open>m * 3.28084\<close> by at most \<open>m / 2\<^sup>5\<^sup>0\<close>, and \<open>round (m / 10) * 10\<close> is ten times the nearest
  integer of the rounded quotient.
\<close>

theorem formatDistance_threshold:
  assumes "0 \<le> m"
  shows
    "(\<forall>feet. mul_binary64 (Fin m) FEET_PER_METER = Fin feet \<and> feet < 1000 \<longrightarrow>
        formatDistance toLocaleString (Fin m) =
          \<lparr>value_text = toLocaleString (Fin (of_int \<lfloor>feet + 1 / 2\<rfloor>)), unit_text = ''ft''\<rparr>) \<and>
     (\<forall>feet. mul_binary64 (Fin m) FEET_PER_METER = Fin feet \<and> \<lfloor>feet + 1 / 2\<rfloor> = 999 \<and>
        toLocaleString (Fin 999) = ''999'' \<longrightarrow>
        formatDistance toLocaleString (Fin m) = \<lparr>value_text = ''999'', unit_text = ''ft''\<rparr>) \<and>
     (\<not> less_num (mul_binary64 (Fin m) FEET_PER_METER) (Fin 1000) \<longrightarrow>
        formatDistance toLocaleString (Fin m) =
          \<lparr>value_text =
             toLocaleString (mul_binary64 (round_num (divide_binary64 (Fin m) (Fin 10))) (Fin 10)),
           unit_text = ''m''\<rparr>) \<and>
     (m \<le> 10 ^ 15 \<longrightarrow>
        (\<exists>feet q. mul_binary64 (Fin m) FEET_PER_METER = Fin feet \<and>
           \<bar>feet - m * (328084 / 100000)\<bar> \<le> m / 2 ^ 50 + 1 / 2 ^ 1075 \<and>
           divide_binary64 (Fin m) (Fin 10) = Fin q \<and>
           \<bar>q - m / 10\<bar> \<le> m / (10 * 2 ^ 53) + 1 / 2 ^ 1075 \<and>
           (\<not> feet < 1000 \<longrightarrow>
              formatDistance toLocaleString (Fin m) =
                \<lparr>value_text = toLocaleString (Fin (of_int \<lfloor>q + 1 / 2\<rfloor> * 10)),
                 unit_text = ''m''\<rparr>)))"
proof (intro conjI allI impI)
  fix feet
  assume "mul_binary64 (Fin m) FEET_PER_METER = Fin feet \<and> feet < 1000"
  then show "formatDistance toLocaleString (Fin m) =
      \<lparr>value_text = toLocaleString (Fin (of_int \<lfloor>feet + 1 / 2\<rfloor>)), unit_text = ''ft''\<rparr>"
    by (intro formatDistance_feet) simp_all
next
  fix feet
  assume h: "mul_binary64 (Fin m) FEET_PER_METER = Fin feet \<and> \<lfloor>feet + 1 / 2\<rfloor> = 999 \<and>
    toLocaleString (Fin 999) = ''999''"
  then have "feet + 1 / 2 < 999 + 1" by (simp add: floor_eq_iff)
  then have "feet < 1000" by simp
  from formatDistance_feet [OF _ this, of m toLocaleString] h
  show "formatDistance toLocaleString (Fin m) = \<lparr>value_text = ''999'', unit_text = ''ft''\<rparr>"
    by simp
next
  assume "\<not> less_num (mul_binary64 (Fin m) FEET_PER_METER) (Fin 1000)"
  then show "formatDistance toLocaleString (Fin m) =
      \<lparr>value_text =
         toLocaleString (mul_binary64 (round_num (divide_binary64 (Fin m) (Fin 10))) (Fin 10)),
       unit_text = ''m''\<rparr>"
    by (rule formatDistance_meters)
next
  assume b: "m \<le> 10 ^ 15"
  from feet_error [OF assms b] obtain feet where
    f: "mul_binary64 (Fin m) FEET_PER_METER = Fin feet"
       "\<bar>feet - m * (328084 / 100000)\<bar> \<le> m / 2 ^ 50 + 1 / 2 ^ 1075"
    by blast
  from rounded_meters [OF assms b] obtain q where
    q: "divide_binary64 (Fin m) (Fin 10) = Fin q"
       "\<bar>q - m / 10\<bar> \<le> m / (10 * 2 ^ 53) + 1 / 2 ^ 1075"
       "mul_binary64 (round_num (divide_binary64 (Fin m) (Fin 10))) (Fin 10) =
          Fin (of_int \<lfloor>q + 1 / 2\<rfloor> * 10)"
    by blast
  have "formatDistance toLocaleString (Fin m) =
      \<lparr>value_text = toLocaleString (Fin (of_int \<lfloor>q + 1 / 2\<rfloor> * 10)), unit_text = ''m''\<rparr>"
    if "\<not> feet < 1000"
    using formatDistance_meters [of m toLocaleString] that f(1) q(3) by simp
  with f q(1,2) show "\<exists>feet q. mul_binary64 (Fin m) FEET_PER_METER = Fin feet \<and>
           \<bar>feet - m * (328084 / 100000)\<bar> \<le> m / 2 ^ 50 + 1 / 2 ^ 1075 \<and>
           divide_binary64 (Fin m) (Fin 10) = Fin q \<and>
           \<bar>q - m / 10\<bar> \<le> m / (10 * 2 ^ 53) + 1 / 2 ^ 1075 \<and>
           (\<not> feet < 1000 \<longrightarrow>
              formatDistance toLocaleString (Fin m) =
                \<lparr>value_text = toLocaleString (Fin (of_int \<lfloor>q + 1 / 2\<rfloor> * 10)),
                 unit_text = ''m''\<rparr>)"
    by blast
qed

text \<open>
  The feet of four binary64 distances: 100 meters, 304.5 meters, 305 meters, and the
  distance \<open>857935701560137 / 2\<^sup>5\<^sup>0\<close> (about 0.762 meters), whose feet are exactly 2.5.
\<close>

lemma feet_100:
  "mul_binary64 (Fin 100) FEET_PER_METER = Fin (5771714766196179 / 2 ^ 44)"
  unfolding FEET_PER_METER_value mul_binary64.simps
  using binary64_nearest_frac [of 44 "100 * (7387794900731109 / 2 ^ 51)" 5771714766196179]
  by simp

lemma feet_304_5:
  "mul_binary64 (Fin (609 / 2)) FEET_PER_METER = Fin (8787435731533682 / 2 ^ 43)"
  unfolding FEET_PER_METER_value mul_binary64.simps
  using binary64_nearest_frac [of 43 "609 / 2 * (7387794900731109 / 2 ^ 51)" 8787435731533682]
  by simp

lemma feet_305:
  "mul_binary64 (Fin 305) FEET_PER_METER = Fin (8801865018449173 / 2 ^ 43)"
  unfolding FEET_PER_METER_value mul_binary64.simps
  using binary64_nearest_frac [of 43 "305 * (7387794900731109 / 2 ^ 51)" 8801865018449173]
  by simp

lemma feet_tie:
  "mul_binary64 (Fin (857935701560137 / 2 ^ 50)) FEET_PER_METER = Fin (5 / 2)"
  unfolding FEET_PER_METER_value mul_binary64.simps
  using binary64_nearest_frac
    [of 51 "857935701560137 / 2 ^ 50 * (7387794900731109 / 2 ^ 51)" 5629499534213120]
  by simp

lemma tens_305:
  "mul_binary64 (round_num (divide_binary64 (Fin 305) (Fin 10))) (Fin 10) = Fin 310"
proof -
  have "binary64 (305 / 10) = Fin (61 / 2)"
    using binary64_dyadic [of 61 1] by simp
  moreover have "\<lfloor>(61::real) / 2 + 1 / 2\<rfloor> = 31" by (rule floor_unique) simp_all
  ultimately show ?thesis by simp
qed

text \<open>
  The theorem at these four distances: 100 meters show as 328 feet, 304.5 meters as 999
  feet, 305 meters (1000.66 feet) as 310 meters, and the feet 2.5 as 3 feet, on hosts
  that render 999, 310 and 3 as \<open>999\<close>, \<open>310\<close> and \<open>3\<close>.
\<close>

theorem formatDistance_threshold_witness:
  "formatDistance (\<lambda>x. if x = Fin 328 then ''328'' else ''other'') (Fin 100) =
     \<lparr>value_text = ''328'', unit_text = ''ft''\<rparr> \<and>
   formatDistance (\<lambda>x. if x = Fin 999 then ''999'' else ''other'') (Fin (609 / 2)) =
     \<lparr>value_text = ''999'', unit_text = ''ft''\<rparr> \<and>
   formatDistance (\<lambda>x. if x = Fin 310 then ''310'' else ''other'') (Fin 305) =
     \<lparr>value_text = ''310'', unit_text = ''m''\<rparr> \<and>
   formatDistance (\<lambda>x. if x = Fin 3 then ''3'' else ''other'')
     (Fin (857935701560137 / 2 ^ 50)) = \<lparr>value_text = ''3'', unit_text = ''ft''\<rparr>"
proof -
  have f100: "\<lfloor>(5771714766196179::real) / 2 ^ 44 + 1 / 2\<rfloor> = 328"
    by (rule floor_unique) simp_all
  have f304: "\<lfloor>(8787435731533682::real) / 2 ^ 43 + 1 / 2\<rfloor> = 999"
    by (rule floor_unique) simp_all
  have ftie: "\<lfloor>(5::real) / 2 + 1 / 2\<rfloor> = 3"
    by (rule floor_unique) simp_all
  have far: "\<not> less_num (mul_binary64 (Fin 305) FEET_PER_METER) (Fin 1000)"
    unfolding feet_305 by simp
  have a: "formatDistance (\<lambda>x. if x = Fin 328 then ''328'' else ''other'') (Fin 100) =
      \<lparr>value_text = ''328'', unit_text = ''ft''\<rparr>"
    using formatDistance_threshold [of 100 "\<lambda>x. if x = Fin 328 then ''328'' else ''other''",
        THEN conjunct1, rule_format, of "5771714766196179 / 2 ^ 44"]
      feet_100 f100
    by simp
  have b: "formatDistance (\<lambda>x. if x = Fin 999 then ''999'' else ''other'') (Fin (609 / 2)) =
      \<lparr>value_text = ''999'', unit_text = ''ft''\<rparr>"
    using formatDistance_threshold [of "609 / 2" "\<lambda>x. if x = Fin 999 then ''999'' else ''other''",
        THEN conjunct2, THEN conjunct1, rule_format, of "8787435731533682 / 2 ^ 43"]
      feet_304_5 f304
    by simp
  have c: "formatDistance (\<lambda>x. if x = Fin 310 then ''310'' else ''other'') (Fin 305) =
      \<lparr>value_text = ''310'', unit_text = ''m''\<rparr>"
    using formatDistance_threshold [of 305 "\<lambda>x. if x = Fin 310 then ''310'' else ''other''",
        THEN conjunct2, THEN conjunct2, THEN conjunct1, rule_format] far tens_305
    by simp
  have d: "formatDistance (\<lambda>x. if x = Fin 3 then ''3'' else ''other'')
      (Fin (857935701560137 / 2 ^ 50)) = \<lparr>value_text = ''3'', unit_text = ''ft''\<rparr>"
    using formatDistance_threshold
      [of "857935701560137 / 2 ^ 50" "\<lambda>x. if x = Fin 3 then ''3'' else ''other''",
        THEN conjunct1, rule_format, of "5 / 2"]
      feet_tie ftie
    by simp
  from a b c d show ?thesis by blast
qed

subsection \<open>The loop of the heading normalisation\<close>

lemma binary64_absorbs_360:
  "add_binary64 (Fin (- (2 ^ 63))) (Fin 360) = Fin (- (2 ^ 63))"
proof -
  let ?x = "- (2 ^ 63) + 360 :: real"
  have "\<lfloor>log 2 \<bar>?x\<bar>\<rfloor> = int 62"
    by (rule floor_log2_eq) simp_all
  then have q: "binary64_quantum ?x = 1024"
    by (simp add: binary64_quantum_def powr_numeral)
  have f: "\<lfloor>?x / 1024\<rfloor> = - (2 ^ 53)"
    by (rule floor_unique) simp_all
  have "round_half_even (?x / 1024) = - (2 ^ 53)"
    unfolding round_half_even_def Let_def f by simp
  then have "binary64 ?x = Fin (- (2 ^ 63))"
    unfolding binary64_def q Let_def by simp
  then show ?thesis by simp
qed

lemma normalizeHeading_while_binary64_stuck:
  assumes "normalizeHeading_while_binary64 h = Some y"
  shows "h \<noteq> Fin (- (2 ^ 63))"
proof (rule normalizeHeading_while_binary64.raw_induct
    [where P = "\<lambda>h y. h \<noteq> Fin (- (2 ^ 63))", OF _ assms])
  fix loop :: "number \<Rightarrow> number option" and h y :: number
  assume IH: "\<And>x y. loop x = Some y \<Longrightarrow> x \<noteq> Fin (- (2 ^ 63))"
  assume step: "(if less_num h (Fin 0) then loop (add_binary64 h (Fin 360)) else Some h) = Some y"
  show "h \<noteq> Fin (- (2 ^ 63))"
  proof
    assume h: "h = Fin (- (2 ^ 63))"
    have neg: "less_num (Fin (- (2 ^ 63))) (Fin 0)" by simp
    from step have "loop (add_binary64 (Fin (- (2 ^ 63))) (Fin 360)) = Some y"
      unfolding h using neg by (simp only: if_True)
    then have "loop (Fin (- (2 ^ 63))) = Some y"
      by (simp only: binary64_absorbs_360)
    with IH show False by blast
  qed
qed

lemma normalizeHeading_while_binary64_result:
  assumes "normalizeHeading_while_binary64 h = Some y"
  shows "h \<noteq> NaN \<and> h \<noteq> PInf \<longrightarrow> (\<exists>v. y = Fin v \<and> 0 \<le> v)"
proof (rule normalizeHeading_while_binary64.raw_induct
    [where P = "\<lambda>h y. h \<noteq> NaN \<and> h \<noteq> PInf \<longrightarrow> (\<exists>v. y = Fin v \<and> 0 \<le> v)", OF _ assms])
  fix loop :: "number \<Rightarrow> number option" and h y :: number
  assume IH: "\<And>x y. loop x = Some y \<Longrightarrow> x \<noteq> NaN \<and> x \<noteq> PInf \<longrightarrow> (\<exists>v. y = Fin v \<and> 0 \<le> v)"
  assume step: "(if less_num h (Fin 0) then loop (add_binary64 h (Fin 360)) else Some h) = Some y"
  show "h \<noteq> NaN \<and> h \<noteq> PInf \<longrightarrow> (\<exists>v. y = Fin v \<and> 0 \<le> v)"
  proof (cases h)
    case (Fin x)
    show ?thesis
    proof (cases "x < 0")
      case True
      with step Fin have "loop (binary64 (x + 360)) = Some y" by simp
      moreover have "binary64 (x + 360) \<noteq> NaN" by (rule binary64_not_NaN)
      moreover have "binary64 (x + 360) \<noteq> PInf" using True by (intro binary64_below_360) simp
      ultimately show ?thesis using IH by blast
    next
      case False
      with step Fin have "y = Fin x" "0 \<le> x" by simp_all
      then show ?thesis by blast
    qed
  next
    case NInf
    with step have "loop NInf = Some y" by simp
    with IH show ?thesis by blast
  qed simp_all
qed

lemma normalizeHeading_binary64_range:
  assumes "normalizeHeading_binary64 (Fin x) = Some r"
  shows "\<exists>h. r = Fin h \<and> 0 \<le> h \<and> h < 360"
proof -
  from assms obtain y where y: "normalizeHeading_while_binary64 (Fin x) = Some y"
    and r: "r = mod_num y (Fin 360)"
    by (auto simp: normalizeHeading_binary64_def)
  from normalizeHeading_while_binary64_result [OF y] obtain v where v: "y = Fin v" "0 \<le> v"
    by auto
  show ?thesis
    unfolding r v(1) mod_num_360_nonneg [OF v(2)]
    using floor_360_range [of v] by blast
qed

lemma normalizeHeading_binary64_minus_90:
  "normalizeHeading_binary64 (Fin (- 90)) = Some (Fin 270)"
proof -
  have "normalizeHeading_while_binary64 (Fin 270) = Some (Fin 270)"
    by (subst normalizeHeading_while_binary64.simps) simp
  then have "normalizeHeading_while_binary64 (Fin (- 90)) = Some (Fin 270)"
    by (subst normalizeHeading_while_binary64.simps) (simp add: binary64_270)
  then show ?thesis
    by (simp add: normalizeHeading_binary64_def mod_num_360_small del: mod_num.simps)
qed

lemma normalizeHeading_while_binary64_returns:
  assumes "- (2 ^ 53) \<le> x"
  shows "\<exists>y. normalizeHeading_while_binary64 (Fin x) = Some (Fin y) \<and> 0 \<le> y"
  using assms
proof (induction "nat \<lceil>- x\<rceil>" arbitrary: x rule: less_induct)
  case less
  show ?case
  proof (cases "x < 0")
    case False
    then have "normalizeHeading_while_binary64 (Fin x) = Some (Fin x)"
      by (subst normalizeHeading_while_binary64.simps) simp
    with False show ?thesis by auto
  next
    case True
    have "\<bar>x + 360\<bar> \<le> 2 ^ 53" using True less.prems by (simp add: abs_le_iff)
    from binary64_bounded [OF this] obtain r where
      r: "binary64 (x + 360) = Fin r" and e: "\<bar>r - (x + 360)\<bar> \<le> 2 ^ 53 / 2 ^ 53 + 1 / 2 ^ 1075"
      by auto
    have "(2::real) ^ 53 / 2 ^ 53 + 1 / 2 ^ 1075 \<le> 2" by simp
    with e have lower: "x + 358 \<le> r" by linarith
    have step: "normalizeHeading_while_binary64 (Fin x) = normalizeHeading_while_binary64 (Fin r)"
      by (subst normalizeHeading_while_binary64.simps) (simp add: True r)
    have bound: "- (2 ^ 53) \<le> r" using lower less.prems by linarith
    have "- r \<le> - x - 358" using lower by simp
    then have "\<lceil>- r\<rceil> \<le> \<lceil>- x - 358\<rceil>" by (rule ceiling_mono)
    then have "\<lceil>- r\<rceil> \<le> \<lceil>- x\<rceil> - 358" by simp
    moreover have "0 < \<lceil>- x\<rceil>" using True by (simp add: less_ceiling_iff)
    ultimately have "nat \<lceil>- r\<rceil> < nat \<lceil>- x\<rceil>" by linarith
    from less.hyps [OF this bound] step show ?thesis by simp
  qed
qed

lemma normalizeHeading_binary64_returns:
  assumes "- (2 ^ 53) \<le> x"
  shows "\<exists>h. normalizeHeading_binary64 (Fin x) = Some (Fin h) \<and> 0 \<le> h \<and> h < 360"
proof -
  from normalizeHeading_while_binary64_returns [OF assms] obtain y where
    y: "normalizeHeading_while_binary64 (Fin x) = Some (Fin y)" "0 \<le> y"
    by blast
  have "normalizeHeading_binary64 (Fin x) = Some (Fin (y - 360 * of_int \<lfloor>y / 360\<rfloor>))"
    unfolding normalizeHeading_binary64_def y(1) option.map mod_num_360_nonneg [OF y(2)] ..
  with floor_360_range [of y] show ?thesis by blast
qed

lemma calculateRelativeHeading_range:
  assumes "\<bar>bearing\<bar> \<le> 2 ^ 51" "\<bar>deviceHeading\<bar> \<le> 2 ^ 51"
  shows "\<exists>h. calculateRelativeHeading (Fin bearing) (Fin deviceHeading) = Some (Fin h) \<and>
           0 \<le> h \<and> h < 360"
proof -
  have "(2::real) ^ 52 = 2 ^ 51 + 2 ^ 51" by simp
  then have "\<bar>bearing - deviceHeading\<bar> \<le> 2 ^ 52" using assms by linarith
  from binary64_power_bound [OF this] obtain r where
    r: "binary64 (bearing - deviceHeading) = Fin r" "\<bar>r\<bar> \<le> 2 ^ 52"
    by auto
  have "(2::real) ^ 52 \<le> 2 ^ 53" by simp
  with r(2) have "- (2 ^ 53) \<le> r" by linarith
  from normalizeHeading_binary64_returns [OF this] r(1) show ?thesis
    by (simp add: calculateRelativeHeading_def)
qed

text \<open>The conversions between degrees and radians, and the products of the bearing.\<close>

lemma toRadians_finite:
  assumes "\<bar>d\<bar> \<le> 2 ^ 1001"
  shows "\<exists>r. toRadians (Fin d) = Fin r"
proof -
  have "\<bar>884279719003555 / 2 ^ 48 / 180 :: real\<bar> \<le> 2 ^ 0" by simp
  from binary64_power_bound [OF this] obtain c where
    c: "binary64 (884279719003555 / 2 ^ 48 / 180) = Fin c" "\<bar>c\<bar> \<le> 1"
    by auto
  have "\<bar>d * c\<bar> \<le> 2 ^ 1001 * 1"
    unfolding abs_mult using assms c(2) by (intro mult_mono) simp_all
  then have "\<bar>d * c\<bar> \<le> 2 ^ 1001" by simp
  from binary64_power_bound [OF this] obtain r where "binary64 (d * c) = Fin r" by auto
  with c(1) show ?thesis by (simp add: toRadians_def MATH_PI_def)
qed

lemma toDegrees_bounded:
  assumes "\<bar>t\<bar> \<le> 4"
  shows "\<exists>b. toDegrees (Fin t) = Fin b \<and> \<bar>b\<bar> \<le> 256"
proof -
  have "\<bar>180 / (884279719003555 / 2 ^ 48) :: real\<bar> \<le> 2 ^ 6" by simp
  from binary64_power_bound [OF this] obtain k where
    k: "binary64 (180 / (884279719003555 / 2 ^ 48)) = Fin k" "\<bar>k\<bar> \<le> 64"
    by auto
  have "\<bar>t * k\<bar> \<le> 4 * 64"
    unfolding abs_mult using assms k(2) by (intro mult_mono) simp_all
  then have "\<bar>t * k\<bar> \<le> 2 ^ 8" by simp
  from binary64_power_bound [OF this] obtain b where "binary64 (t * k) = Fin b" "\<bar>b\<bar> \<le> 256"
    by auto
  with k(1) show ?thesis by (simp add: toDegrees_def MATH_PI_def)
qed

lemma mul_binary64_unit:
  assumes "\<bar>a\<bar> \<le> 1" "\<bar>b\<bar> \<le> 1"
  shows "\<exists>r. mul_binary64 (Fin a) (Fin b) = Fin r \<and> \<bar>r\<bar> \<le> 1"
proof -
  have "\<bar>a * b\<bar> \<le> 1 * 1"
    unfolding abs_mult using assms by (intro mult_mono) simp_all
  then have "\<bar>a * b\<bar> \<le> 2 ^ 0" by simp
  from binary64_power_bound [OF this] show ?thesis by simp
qed

lemma wrap_360:
  assumes "\<bar>b\<bar> \<le> 256"
  shows "\<exists>h. mod_num (add_binary64 (Fin b) (Fin 360)) (Fin 360) = Fin h \<and> 0 \<le> h \<and> h < 360"
proof -
  have "\<bar>b + 360\<bar> \<le> 616" using assms by linarith
  from binary64_bounded [OF this] obtain v where
    v: "binary64 (b + 360) = Fin v" "0 \<le> b + 360 \<longrightarrow> 0 \<le> v"
    by auto
  from assms have "0 \<le> b + 360" by linarith
  with v(2) have v0: "0 \<le> v" by simp
  have "mod_num (add_binary64 (Fin b) (Fin 360)) (Fin 360) = Fin (v - 360 * of_int \<lfloor>v / 360\<rfloor>)"
    unfolding add_binary64.simps v(1) mod_num_360_nonneg [OF v0] ..
  with floor_360_range [of v] show ?thesis by blast
qed

lemma calculateBearing_range:
  assumes M: "math_conforms M"
    and p: "bounded_coordinates (2 ^ 1000) from" and q: "bounded_coordinates (2 ^ 1000) to"
  shows "\<exists>b. calculateBearing M from to = Fin b \<and> 0 \<le> b \<and> b < 360"
proof -
  from p obtain lat1 long1 where
    p': "latitude from = Fin lat1" "longitude from = Fin long1"
        "\<bar>lat1\<bar> \<le> 2 ^ 1000" "\<bar>long1\<bar> \<le> 2 ^ 1000"
    by (auto simp: bounded_coordinates_def)
  from q obtain lat2 long2 where
    q': "latitude to = Fin lat2" "longitude to = Fin long2"
        "\<bar>lat2\<bar> \<le> 2 ^ 1000" "\<bar>long2\<bar> \<le> 2 ^ 1000"
    by (auto simp: bounded_coordinates_def)
  have sn: "\<exists>s. math_sin M (Fin a) = Fin s \<and> \<bar>s\<bar> \<le> 1" for a
    using M by (simp add: math_conforms_def)
  have cs: "\<exists>c. math_cos M (Fin a) = Fin c \<and> \<bar>c\<bar> \<le> 1" for a
    using M by (simp add: math_conforms_def)
  have at: "\<exists>t. math_atan2 M (Fin y) (Fin x) = Fin t \<and> \<bar>t\<bar> \<le> 4" for y x
    using M by (simp add: math_conforms_def)
  have le: "(2::real) ^ 1000 \<le> 2 ^ 1001" by simp
  have "\<bar>lat1\<bar> \<le> 2 ^ 1001" using p'(3) le by linarith
  from toRadians_finite [OF this] obtain r1 where r1: "toRadians (Fin lat1) = Fin r1" by blast
  have "\<bar>lat2\<bar> \<le> 2 ^ 1001" using q'(3) le by linarith
  from toRadians_finite [OF this] obtain r2 where r2: "toRadians (Fin lat2) = Fin r2" by blast
  have "(2::real) ^ 1001 = 2 ^ 1000 + 2 ^ 1000" by simp
  then have "\<bar>long2 - long1\<bar> \<le> 2 ^ 1001" using p'(4) q'(4) by linarith
  from binary64_power_bound [OF this] obtain dl where
    dl: "binary64 (long2 - long1) = Fin dl" "\<bar>dl\<bar> \<le> 2 ^ 1001"
    by auto
  from toRadians_finite [OF dl(2)] obtain rd where rd: "toRadians (Fin dl) = Fin rd" by blast
  from sn [of rd] obtain sd where sd: "math_sin M (Fin rd) = Fin sd" "\<bar>sd\<bar> \<le> 1" by blast
  from cs [of rd] obtain cd where cd: "math_cos M (Fin rd) = Fin cd" "\<bar>cd\<bar> \<le> 1" by blast
  from sn [of r1] obtain s1 where s1: "math_sin M (Fin r1) = Fin s1" "\<bar>s1\<bar> \<le> 1" by blast
  from cs [of r1] obtain c1 where c1: "math_cos M (Fin r1) = Fin c1" "\<bar>c1\<bar> \<le> 1" by blast
  from sn [of r2] obtain s2 where s2: "math_sin M (Fin r2) = Fin s2" "\<bar>s2\<bar> \<le> 1" by blast
  from cs [of r2] obtain c2 where c2: "math_cos M (Fin r2) = Fin c2" "\<bar>c2\<bar> \<le> 1" by blast
  from mul_binary64_unit [OF sd(2) c2(2)] obtain x where
    x: "mul_binary64 (Fin sd) (Fin c2) = Fin x" by blast
  from mul_binary64_unit [OF c1(2) s2(2)] obtain y1 where
    y1: "mul_binary64 (Fin c1) (Fin s2) = Fin y1" "\<bar>y1\<bar> \<le> 1" by blast
  from mul_binary64_unit [OF s1(2) c2(2)] obtain y2 where
    y2: "mul_binary64 (Fin s1) (Fin c2) = Fin y2" "\<bar>y2\<bar> \<le> 1" by blast
  from mul_binary64_unit [OF y2(2) cd(2)] obtain y3 where
    y3: "mul_binary64 (Fin y2) (Fin cd) = Fin y3" "\<bar>y3\<bar> \<le> 1" by blast
  have "\<bar>y1 - y3\<bar> \<le> 2 ^ 1" using y1(2) y3(2) by simp
  from binary64_power_bound [OF this] obtain y where
    y: "sub_binary64 (Fin y1) (Fin y3) = Fin y" by auto
  from at [of x y] obtain t where t: "math_atan2 M (Fin x) (Fin y) = Fin t" "\<bar>t\<bar> \<le> 4" by blast
  from toDegrees_bounded [OF t(2)] obtain b where
    b: "toDegrees (Fin t) = Fin b" "\<bar>b\<bar> \<le> 256" by blast
  have "calculateBearing M from to = mod_num (add_binary64 (Fin b) (Fin 360)) (Fin 360)"
    unfolding calculateBearing_def Let_def p'(1,2) q'(1,2) r1 r2 sub_binary64.simps(1) [of long2 long1]
      dl(1) rd sd(1) cd(1) s1(1) c1(1) s2(1) c2(1) x y1(1) y2(1) y3(1) y t(1) b(1) ..
  with wrap_360 [OF b(2)] show ?thesis by simp
qed

text \<open>The host with correctly rounded functions is one of these hosts.\<close>

lemma atan2_range: "- pi < atan2 y x \<and> atan2 y x \<le> pi"
proof -
  have b: "- (pi / 2) < arctan (y / x)" "arctan (y / x) < pi / 2"
    by (rule arctan_lbound, rule arctan_ubound)
  consider "0 < x" | "x < 0" "0 \<le> y" | "x < 0" "y < 0" | "x = 0"
    by linarith
  then show ?thesis
  proof cases
    case 1
    then have "atan2 y x = arctan (y / x)" by (simp add: atan2_def)
    with b pi_gt_zero show ?thesis by linarith
  next
    case 2
    then have "y / x \<le> 0" by (simp add: divide_nonneg_neg)
    then have "arctan (y / x) \<le> 0" by simp
    moreover have "atan2 y x = arctan (y / x) + pi" using 2 by (simp add: atan2_def)
    ultimately show ?thesis using b pi_gt_zero by linarith
  next
    case 3
    then have "0 < y / x" by (simp add: divide_neg_neg)
    then have "0 < arctan (y / x)" by simp
    moreover have "atan2 y x = arctan (y / x) - pi" using 3 by (simp add: atan2_def)
    ultimately show ?thesis using b pi_gt_zero by linarith
  next
    case 4
    then have "atan2 y x = pi / 2 \<or> atan2 y x = - (pi / 2) \<or> atan2 y x = 0"
      by (simp add: atan2_def)
    with pi_gt_zero show ?thesis by linarith
  qed
qed

lemma rounded_Math_conforms: "math_conforms rounded_Math"
proof -
  have s: "\<exists>s. binary64 (sin a) = Fin s \<and> \<bar>s\<bar> \<le> 1" for a :: real
    using binary64_power_bound [of "sin a" 0] by simp
  have c: "\<exists>c. binary64 (cos a) = Fin c \<and> \<bar>c\<bar> \<le> 1" for a :: real
    using binary64_power_bound [of "cos a" 0] by simp
  have t: "\<exists>t. binary64 (atan2 y x) = Fin t \<and> \<bar>t\<bar> \<le> 4" for y x
  proof -
    from atan2_range [of y x] pi_less_4 have "\<bar>atan2 y x\<bar> \<le> 4" by linarith
    then have "\<bar>atan2 y x\<bar> \<le> 2 ^ 2" by simp
    from binary64_power_bound [OF this] show ?thesis by simp
  qed
  from s c t show ?thesis by (simp add: math_conforms_def rounded_Math_def)
qed

text \<open>The difference of two finite numbers that is not finite.\<close>

lemma binary64_overflow: "binary64 (2 ^ 1024) = PInf"
proof -
  have "\<lfloor>log 2 \<bar>2 ^ 1024 :: real\<bar>\<rfloor> = int 1024"
    by (rule floor_log2_eq) simp_all
  then have q: "binary64_quantum (2 ^ 1024) = 2 ^ 972"
    by (simp add: binary64_quantum_def powr_numeral)
  have "round_half_even (2 ^ 1024 / 2 ^ 972) = 2 ^ 52"
    using round_half_even_of_int [of "2 ^ 52"] by simp
  then show ?thesis
    unfolding binary64_def q Let_def by (simp add: signed_inf_def)
qed

lemma calculateRelativeHeading_overflow:
  "calculateRelativeHeading (Fin (2 ^ 1023)) (Fin (- (2 ^ 1023))) = Some NaN"
proof -
  have "(2::real) ^ 1023 - - (2 ^ 1023) = 2 ^ 1024" by simp
  then have "sub_binary64 (Fin (2 ^ 1023)) (Fin (- (2 ^ 1023))) = PInf"
    unfolding sub_binary64.simps by (simp only: binary64_overflow)
  moreover have "normalizeHeading_while_binary64 PInf = Some PInf"
    by (subst normalizeHeading_while_binary64.simps) simp
  ultimately show ?thesis
    by (simp only: calculateRelativeHeading_def Let_def normalizeHeading_binary64_def
        option.map mod_num.simps)
qed

lemma calculateRelativeHeading_90_180:
  "calculateRelativeHeading (Fin 90) (Fin 180) = Some (Fin 270)"
  using normalizeHeading_binary64_minus_90 by (simp add: calculateRelativeHeading_def)

subsection \<open>The range of the angles\<close>

text \<open>
  Claim C7, as amended.  On a host whose sine and cosine are finite and at most 1 in
  magnitude and whose \<open>atan2\<close> is finite and at most 4 in magnitude,
  \<open>calculateBearing\<close> returns an angle in \<open>[0, 360)\<close> for all coordinates of magnitude at
  most \<open>2\<^sup>1\<^sup>0\<^sup>0\<^sup>0\<close>, also between equal endpoints.  \<open>normalizeHeading\<close> returns, with an
  angle in \<open>[0, 360)\<close>, for every heading from \<open>-2\<^sup>5\<^sup>3\<close> on, and \<open>calculateRelativeHeading\<close>
  does for a bearing and a device heading of magnitude at most \<open>2\<^sup>5\<^sup>1\<close>.  Whatever
  \<open>normalizeHeading\<close> returns for a finite heading lies in \<open>[0, 360)\<close>.
\<close>

theorem angles_in_range:
  "(math_conforms M \<and> bounded_coordinates (2 ^ 1000) from \<and> bounded_coordinates (2 ^ 1000) to \<longrightarrow>
      (\<exists>b. calculateBearing M from to = Fin b \<and> 0 \<le> b \<and> b < 360)) \<and>
   (math_conforms M \<and> bounded_coordinates (2 ^ 1000) from \<longrightarrow>
      (\<exists>b. calculateBearing M from from = Fin b \<and> 0 \<le> b \<and> b < 360)) \<and>
   (- (2 ^ 53) \<le> x \<longrightarrow>
      (\<exists>h. normalizeHeading_binary64 (Fin x) = Some (Fin h) \<and> 0 \<le> h \<and> h < 360)) \<and>
   (\<bar>bearing\<bar> \<le> 2 ^ 51 \<and> \<bar>deviceHeading\<bar> \<le> 2 ^ 51 \<longrightarrow>
      (\<exists>h. calculateRelativeHeading (Fin bearing) (Fin deviceHeading) = Some (Fin h) \<and>
         0 \<le> h \<and> h < 360)) \<and>
   (normalizeHeading_binary64 (Fin x) = Some r \<longrightarrow> (\<exists>h. r = Fin h \<and> 0 \<le> h \<and> h < 360))"
  using calculateBearing_range [of M "from" "to"] calculateBearing_range [of M "from" "from"]
    normalizeHeading_binary64_returns [of x]
    calculateRelativeHeading_range [of bearing deviceHeading]
    normalizeHeading_binary64_range [of x r]
  by blast

text \<open>
  The theorem on the host with correctly rounded functions, between the points
  (40, -75) and (41, -76) and at the point (40, -75) taken twice; at the heading -90,
  which becomes 270; and for the bearing 90 seen from the device heading 180.
\<close>

theorem angles_in_range_witness:
  "math_conforms rounded_Math \<and>
   bounded_coordinates (2 ^ 1000) \<lparr>latitude = Fin 40, longitude = Fin (- 75)\<rparr> \<and>
   bounded_coordinates (2 ^ 1000) \<lparr>latitude = Fin 41, longitude = Fin (- 76)\<rparr> \<and>
   (\<exists>b. calculateBearing rounded_Math \<lparr>latitude = Fin 40, longitude = Fin (- 75)\<rparr>
          \<lparr>latitude = Fin 41, longitude = Fin (- 76)\<rparr> = Fin b \<and> 0 \<le> b \<and> b < 360) \<and>
   (\<exists>b. calculateBearing rounded_Math \<lparr>latitude = Fin 40, longitude = Fin (- 75)\<rparr>
          \<lparr>latitude = Fin 40, longitude = Fin (- 75)\<rparr> = Fin b \<and> 0 \<le> b \<and> b < 360) \<and>
   - (2 ^ 53) \<le> (- 90 :: real) \<and>
   normalizeHeading_binary64 (Fin (- 90)) = Some (Fin 270) \<and>
   \<bar>90 :: real\<bar> \<le> 2 ^ 51 \<and> \<bar>180 :: real\<bar> \<le> 2 ^ 51 \<and>
   calculateRelativeHeading (Fin 90) (Fin 180) = Some (Fin 270) \<and>
   (\<exists>h. Fin 270 = Fin h \<and> 0 \<le> h \<and> h < 360)"
proof -
  have p: "bounded_coordinates (2 ^ 1000) \<lparr>latitude = Fin 40, longitude = Fin (- 75)\<rparr>"
    and q: "bounded_coordinates (2 ^ 1000) \<lparr>latitude = Fin 41, longitude = Fin (- 76)\<rparr>"
    by (simp_all add: bounded_coordinates_def)
  from angles_in_range [of rounded_Math "\<lparr>latitude = Fin 40, longitude = Fin (- 75)\<rparr>"
      "\<lparr>latitude = Fin 41, longitude = Fin (- 76)\<rparr>" "- 90" 90 180 "Fin 270"]
    rounded_Math_conforms p q normalizeHeading_binary64_minus_90 calculateRelativeHeading_90_180
  show ?thesis by simp
qed

text \<open>
  Claim C7 as stated asks for an angle in \<open>[0, 360)\<close> for every finite input.  The
  finite bearing \<open>2\<^sup>1\<^sup>0\<^sup>2\<^sup>3\<close> and the finite device heading \<open>-2\<^sup>1\<^sup>0\<^sup>2\<^sup>3\<close> have the difference
  \<open>Infinity\<close>, and \<open>calculateRelativeHeading\<close> returns \<open>NaN\<close>.
\<close>

theorem calculateRelativeHeading_overflow_counterexample:
  "sub_binary64 (Fin (2 ^ 1023)) (Fin (- (2 ^ 1023))) = PInf \<and>
   calculateRelativeHeading (Fin (2 ^ 1023)) (Fin (- (2 ^ 1023))) = Some NaN"
proof -
  have "(2::real) ^ 1023 - - (2 ^ 1023) = 2 ^ 1024" by simp
  then have "sub_binary64 (Fin (2 ^ 1023)) (Fin (- (2 ^ 1023))) = PInf"
    unfolding sub_binary64.simps by (simp only: binary64_overflow)
  with calculateRelativeHeading_overflow show ?thesis by simp
qed

text \<open>
  Claim C8.  With the addition of the loop rounded to binary64, as the language
  defines it, \<open>normalizeHeading\<close> does not return at the heading \<open>-2\<^sup>6\<^sup>3\<close>: adding 360
  gives \<open>-2\<^sup>6\<^sup>3\<close> again, so the loop never leaves it.
\<close>

theorem normalizeHeading_binary64_diverges:
  "add_binary64 (Fin (- (2 ^ 63))) (Fin 360) = Fin (- (2 ^ 63)) \<and>
   normalizeHeading_binary64 (Fin (- (2 ^ 63))) = None"
proof -
  have "normalizeHeading_while_binary64 (Fin (- (2 ^ 63))) = None"
    using normalizeHeading_while_binary64_stuck [of "Fin (- (2 ^ 63))"]
    by (cases "normalizeHeading_while_binary64 (Fin (- (2 ^ 63)))") auto
  then show ?thesis
    using binary64_absorbs_360 by (simp only: normalizeHeading_binary64_def option.map simp_thms)
qed

section \<open>Properties of the geolocation hook\<close>

subsection \<open>Smoothing\<close>















subsection \<open>The movement gate\<close>




lemma handleSuccess_beyond:
  assumes "lastReportedPositionRef s = Some lastPos" "smoothed_after pos s = Some smoothed"
    "greater_num (distance lastPos (coords smoothed)) (movement_threshold pos)"
  shows "position (handleSuccess distance pos s) = Some (coords smoothed)"
    and "lastReportedPositionRef (handleSuccess distance pos s) = Some (coords smoothed)"
  using assms
  by (simp_all add: handleSuccess_def smoothed_after_def reading_of_def movement_threshold_def
      Let_def)




subsection \<open>Two distances in exact arithmetic\<close>


lemma sin_45_squared: "sin (pi / 4) * sin (pi / 4) = 1 / 2"
  by (simp add: sin_45)

lemma great_circle_distance_origin_quarter:
  "great_circle_distance \<lparr>latitude = Fin 0, longitude = Fin 0\<rparr>
     \<lparr>latitude = Fin 0, longitude = Fin 90\<rparr> = Fin (6371000 * (pi / 2))"
proof -
  have h: "haversine 0 0 0 90 = 1 / 2"
    using sin_45_squared by (simp add: haversine_def)
  have a: "atan2 (sqrt (1 / 2)) (sqrt (1 - 1 / 2)) = pi / 4"
    by (simp add: atan2_def arctan_one)
  have "great_circle_distance \<lparr>latitude = Fin 0, longitude = Fin 0\<rparr>
      \<lparr>latitude = Fin 0, longitude = Fin 90\<rparr> =
      Fin (6371000 * (2 * atan2 (sqrt (haversine 0 0 0 90)) (sqrt (1 - haversine 0 0 0 90))))"
    by (simp add: great_circle_distance_def Let_def)
  also have "\<dots> = Fin (6371000 * (2 * (pi / 4)))" unfolding h a ..
  finally show ?thesis by simp
qed

subsection \<open>The run over two sessions\<close>

lemma first_session_eq:
  "first_session =
     \<lparr>position = Some \<lparr>latitude = Fin 0, longitude = Fin 0\<rparr>,
      position_accuracy = Some (Fin 1), error = None, isTracking = False, isLoading = False,
      watchIdRef = None,
      positionBufferRef =
        [\<lparr>coords = \<lparr>latitude = Fin 0, longitude = Fin 0\<rparr>, accuracy = Fin 1,
          timestamp = Fin 0\<rparr>],
      lastReportedPositionRef = Some \<lparr>latitude = Fin 0, longitude = Fin 0\<rparr>,
      geolocation = True, watches = [], nextWatchId = 1\<rparr>"
  by (simp add: first_session_def initial_hook_def startTracking_def watchPosition_def
      handleSuccess_def push_reading_def POSITION_BUFFER_SIZE_def calculateSmoothedPosition_def
      smoothing_step_def stopTracking_def clearWatch_def Let_def)

lemma startTracking_first_session:
  "startTracking first_session =
     \<lparr>position = Some \<lparr>latitude = Fin 0, longitude = Fin 0\<rparr>,
      position_accuracy = Some (Fin 1), error = None, isTracking = True, isLoading = True,
      watchIdRef = Some 1,
      positionBufferRef =
        [\<lparr>coords = \<lparr>latitude = Fin 0, longitude = Fin 0\<rparr>, accuracy = Fin 1,
          timestamp = Fin 0\<rparr>],
      lastReportedPositionRef = Some \<lparr>latitude = Fin 0, longitude = Fin 0\<rparr>,
      geolocation = True, watches = [1], nextWatchId = 2\<rparr>"
  by (simp add: first_session_eq startTracking_def watchPosition_def Let_def)

lemma smoothed_after_second_session:
  "smoothed_after (GeolocationPosition (Fin 0) (Fin 180) (Fin 1) (Fin 1))
     (startTracking first_session) =
     Some \<lparr>coords = \<lparr>latitude = Fin 0, longitude = Fin 90\<rparr>, accuracy = Fin 1\<rparr>"
  by (simp add: startTracking_first_session smoothed_after_def reading_of_def push_reading_def
      POSITION_BUFFER_SIZE_def calculateSmoothedPosition_def smoothing_step_def Let_def)

lemma movement_threshold_one:
  "movement_threshold (GeolocationPosition lat long (Fin 1) t) = Fin (1 / 2)"
  by (simp add: movement_threshold_def MOVEMENT_THRESHOLD_FACTOR_def)




lemma within_threshold_NaN:
  "within_threshold (\<lambda>point1 point2. NaN) (GeolocationPosition (Fin 0) (Fin 180) (Fin 1) (Fin 1))
     (startTracking first_session)"
proof -
  have "lastReportedPositionRef (startTracking first_session) =
      Some \<lparr>latitude = Fin 0, longitude = Fin 0\<rparr>"
    by (simp add: startTracking_first_session)
  then show ?thesis
    unfolding within_threshold_def smoothed_after_second_session
    by (simp add: movement_threshold_one greater_num_def)
qed



subsection \<open>Starting and stopping\<close>

lemma startTracking_buffer:
  "positionBufferRef (startTracking s) = positionBufferRef s"
  "lastReportedPositionRef (startTracking s) = lastReportedPositionRef s"
  by (simp_all add: startTracking_def watchPosition_def clearWatch_def Let_def
      split: option.splits)

lemma stopTracking_buffer:
  "positionBufferRef (stopTracking s) = positionBufferRef s"
  "lastReportedPositionRef (stopTracking s) = lastReportedPositionRef s"
  by (simp_all add: stopTracking_def clearWatch_def Let_def split: option.splits)

lemma startTracking_subscribes:
  assumes "geolocation s"
  shows "watchIdRef (startTracking s) = Some (nextWatchId s)"
    and "isTracking (startTracking s)"
    and "watches (startTracking s) =
           (case watchIdRef s of None \<Rightarrow> watches s | Some w \<Rightarrow> removeAll w (watches s)) @
           [nextWatchId s]"
  using assms
  by (simp_all add: startTracking_def watchPosition_def clearWatch_def Let_def
      split: option.splits)

lemma second_session_position:
  "position second_session = Some \<lparr>latitude = Fin 0, longitude = Fin 90\<rparr>"
proof -
  let ?b = "GeolocationPosition (Fin 0) (Fin 180) (Fin 1) (Fin 1)"
  have "lastReportedPositionRef (startTracking first_session) =
      Some \<lparr>latitude = Fin 0, longitude = Fin 0\<rparr>"
    by (simp add: startTracking_first_session)
  moreover have "greater_num
      (great_circle_distance \<lparr>latitude = Fin 0, longitude = Fin 0\<rparr>
         (coords \<lparr>coords = \<lparr>latitude = Fin 0, longitude = Fin 90\<rparr>, accuracy = Fin 1\<rparr>))
      (movement_threshold ?b)"
    using pi_ge_two
    by (simp add: great_circle_distance_origin_quarter movement_threshold_one greater_num_def)
  ultimately show ?thesis
    unfolding second_session_def
    using handleSuccess_beyond(1) [OF _ smoothed_after_second_session] by simp
qed

text \<open>
  Claim C3, as amended.  \<open>startTracking\<close> does not touch the smoothing buffer nor the
  last reported position, and neither does \<open>stopTracking\<close>: what an earlier session
  buffered is still there when the new subscription begins.  Where the browser has a
  geolocation service, \<open>startTracking\<close> cancels the watch it holds, if any, registers a
  new one and keeps its identifier.
\<close>

theorem startTracking_keeps_buffer:
  "positionBufferRef (startTracking s) = positionBufferRef s \<and>
   lastReportedPositionRef (startTracking s) = lastReportedPositionRef s \<and>
   positionBufferRef (stopTracking s) = positionBufferRef s \<and>
   lastReportedPositionRef (stopTracking s) = lastReportedPositionRef s \<and>
   (geolocation s \<longrightarrow>
      isTracking (startTracking s) \<and>
      watchIdRef (startTracking s) = Some (nextWatchId s) \<and>
      watches (startTracking s) =
        (case watchIdRef s of None \<Rightarrow> watches s | Some w \<Rightarrow> removeAll w (watches s)) @
        [nextWatchId s])"
  using startTracking_buffer [of s] stopTracking_buffer [of s] startTracking_subscribes [of s]
  by simp

text \<open>
  The theorem after the first session of the run, and on a call of \<open>startTracking\<close>
  while the hook is already tracking.
\<close>

theorem startTracking_keeps_buffer_witness:
  "geolocation first_session \<and>
   positionBufferRef (startTracking first_session) =
     [\<lparr>coords = \<lparr>latitude = Fin 0, longitude = Fin 0\<rparr>, accuracy = Fin 1, timestamp = Fin 0\<rparr>] \<and>
   watchIdRef (startTracking first_session) = Some 1 \<and>
   geolocation (startTracking first_session) \<and>
   watches (startTracking (startTracking first_session)) = [2]"
proof -
  have g: "geolocation first_session" by (simp add: first_session_eq)
  have g': "geolocation (startTracking first_session)"
    by (simp add: startTracking_first_session)
  have "positionBufferRef (startTracking first_session) =
     [\<lparr>coords = \<lparr>latitude = Fin 0, longitude = Fin 0\<rparr>, accuracy = Fin 1, timestamp = Fin 0\<rparr>] \<and>
   watchIdRef (startTracking first_session) = Some 1"
    using startTracking_keeps_buffer [of first_session] g by (simp add: first_session_eq)
  moreover have "watches (startTracking (startTracking first_session)) = [2]"
    using startTracking_keeps_buffer [of "startTracking first_session"] g'
    by (simp add: startTracking_first_session)
  ultimately show ?thesis using g g' by simp
qed

text \<open>
  Claim C3 as stated asks for an empty buffer after \<open>startTracking\<close>.  In the run, the
  buffer of the second session still holds the position of the first session, and the
  first position reported in the second session, for a fix at longitude 180, is at
  longitude 90: the mean with the fix of the first session.
\<close>

theorem startTracking_buffer_counterexample:
  "positionBufferRef (startTracking first_session) \<noteq> [] \<and>
   position second_session = Some \<lparr>latitude = Fin 0, longitude = Fin 90\<rparr>"
  using second_session_position by (simp add: startTracking_first_session)

subsection \<open>Best of several samples\<close>

declare sampling_loop.simps [simp del]

lemma sampling_loop_eq:
  "sampling_loop sensor numSamples i readings =
     readings @ map reading_of (List.map_filter (\<lambda>i. resolved_position (sensor i)) [i..numSamples - 1])"
proof (induction sensor numSamples i readings rule: sampling_loop.induct)
  case (1 sensor numSamples i readings)
  show ?case
  proof (cases "i < numSamples")
    case False
    then show ?thesis by (subst sampling_loop.simps) simp
  next
    case True
    then have range: "[i..numSamples - 1] = i # [i + 1..numSamples - 1]"
      by (simp add: upto_rec1)
    show ?thesis
    proof (cases "sensor i")
      case (Resolved pos)
      with True "1.IH"(1) [OF True Resolved] show ?thesis
        by (subst sampling_loop.simps)
          (simp add: range resolved_position_def reading_of_def)
    next
      case (Rejected err)
      with True "1.IH"(2) [OF True Rejected] show ?thesis
        by (subst sampling_loop.simps)
          (simp add: range resolved_position_def)
    qed
  qed
qed

lemma sampling_loop_resolved:
  "sampling_loop sensor numSamples 0 [] = map reading_of (resolved_samples sensor numSamples)"
  by (simp add: sampling_loop_eq resolved_samples_def)

lemma resolved_samples_set:
  "set (resolved_samples sensor numSamples) =
     {pos. \<exists>i. 0 \<le> i \<and> i < numSamples \<and> sensor i = Resolved pos}"
  by (force simp: resolved_samples_def List.map_filter_def resolved_position_def image_iff
      split: sample.splits)

lemma resolved_samples_empty:
  "resolved_samples sensor numSamples = [] \<longleftrightarrow>
     (\<forall>i. 0 \<le> i \<and> i < numSamples \<longrightarrow> (\<exists>err. sensor i = Rejected err))"
proof -
  have "resolved_samples sensor numSamples = [] \<longleftrightarrow> set (resolved_samples sensor numSamples) = {}"
    by simp
  also have "\<dots> \<longleftrightarrow> (\<forall>i. 0 \<le> i \<and> i < numSamples \<longrightarrow> (\<exists>err. sensor i = Rejected err))"
    unfolding resolved_samples_set
    by (auto, metis sample.exhaust)
  finally show ?thesis .
qed

lemma foldl_better_reading:
  assumes "\<forall>r\<in>set (x # xs). finite_num (accuracy r)"
  shows "foldl better_reading x xs \<in> set (x # xs) \<and>
         (\<forall>r\<in>set (x # xs). real_of (accuracy (foldl better_reading x xs)) \<le> real_of (accuracy r))"
  using assms
proof (induction xs arbitrary: x)
  case Nil
  then show ?case by simp
next
  case (Cons y xs)
  let ?b = "better_reading x y"
  have fx: "accuracy x = Fin (real_of (accuracy x))" and fy: "accuracy y = Fin (real_of (accuracy y))"
    using Cons.prems by (simp_all add: finite_num_iff [symmetric])
  have b: "?b \<in> {x, y}" "real_of (accuracy ?b) \<le> real_of (accuracy x)"
    "real_of (accuracy ?b) \<le> real_of (accuracy y)"
    using less_num.simps(1) [of "real_of (accuracy y)" "real_of (accuracy x)"] fx fy
    by (auto simp: better_reading_def)
  have "\<forall>r\<in>set (?b # xs). finite_num (accuracy r)"
    using Cons.prems b(1) by auto
  from Cons.IH [OF this] have
    mem: "foldl better_reading ?b xs \<in> set (?b # xs)" and
    least: "\<forall>r\<in>set (?b # xs). real_of (accuracy (foldl better_reading ?b xs)) \<le> real_of (accuracy r)"
    by simp_all
  from least have "real_of (accuracy (foldl better_reading ?b xs)) \<le> real_of (accuracy ?b)"
    by simp
  with b(2,3) least mem b(1) show ?case by auto
qed

lemma getBestReading_none:
  assumes "geolocation s" "resolved_samples sensor numSamples = []"
  shows "getBestReading sensor numSamples s =
           (None, s\<lparr>isLoading := False, error := Some ''Failed to get any GPS readings.''\<rparr>)"
  using assms by (simp add: getBestReading_def sampling_loop_resolved)

lemma getBestReading_some:
  assumes "geolocation s" "resolved_samples sensor numSamples = p # ps"
  shows "fst (getBestReading sensor numSamples s) =
           Some \<lparr>coords = coords (foldl better_reading (reading_of p) (map reading_of ps)),
                 accuracy = accuracy (foldl better_reading (reading_of p) (map reading_of ps))\<rparr>"
  using assms by (simp add: getBestReading_def sampling_loop_resolved Let_def)

lemma getBestReading_least:
  assumes geo: "geolocation s"
    and some: "sensor k = Resolved p" "0 \<le> k" "k < numSamples"
    and fin: "\<forall>i pos. 0 \<le> i \<and> i < numSamples \<and> sensor i = Resolved pos \<longrightarrow>
                finite_num (pos_accuracy pos)"
  shows "\<exists>i pos. 0 \<le> i \<and> i < numSamples \<and> sensor i = Resolved pos \<and>
           fst (getBestReading sensor numSamples s) =
             Some \<lparr>coords = \<lparr>latitude = pos_latitude pos, longitude = pos_longitude pos\<rparr>,
                   accuracy = pos_accuracy pos\<rparr> \<and>
           (\<forall>j q. 0 \<le> j \<and> j < numSamples \<and> sensor j = Resolved q \<longrightarrow>
              real_of (pos_accuracy pos) \<le> real_of (pos_accuracy q))"
proof -
  have "p \<in> set (resolved_samples sensor numSamples)"
    using some by (auto simp: resolved_samples_set)
  then obtain x xs where xs: "resolved_samples sensor numSamples = x # xs"
    by (cases "resolved_samples sensor numSamples") auto
  let ?best = "foldl better_reading (reading_of x) (map reading_of xs)"
  have "\<forall>r\<in>set (reading_of x # map reading_of xs). finite_num (accuracy r)"
  proof
    fix r assume "r \<in> set (reading_of x # map reading_of xs)"
    then obtain q where q: "q \<in> set (resolved_samples sensor numSamples)" "r = reading_of q"
      unfolding xs by auto
    then show "finite_num (accuracy r)"
      using fin by (auto simp: resolved_samples_set reading_of_def)
  qed
  from foldl_better_reading [OF this] have
    mem: "?best \<in> set (reading_of x # map reading_of xs)" and
    least: "\<forall>r\<in>set (reading_of x # map reading_of xs). real_of (accuracy ?best) \<le> real_of (accuracy r)"
    by simp_all
  from mem obtain pos where pos: "pos \<in> set (resolved_samples sensor numSamples)"
    "?best = reading_of pos"
    unfolding xs by auto
  from pos(1) obtain i where i: "0 \<le> i" "i < numSamples" "sensor i = Resolved pos"
    by (auto simp: resolved_samples_set)
  have res: "fst (getBestReading sensor numSamples s) =
             Some \<lparr>coords = \<lparr>latitude = pos_latitude pos, longitude = pos_longitude pos\<rparr>,
                   accuracy = pos_accuracy pos\<rparr>"
    unfolding getBestReading_some [OF geo xs] pos(2) by (simp add: reading_of_def)
  have "real_of (pos_accuracy pos) \<le> real_of (pos_accuracy q)"
    if "0 \<le> j" "j < numSamples" "sensor j = Resolved q" for j q
  proof -
    have "q \<in> set (resolved_samples sensor numSamples)"
      using that by (auto simp: resolved_samples_set)
    then have "reading_of q \<in> set (reading_of x # map reading_of xs)"
      unfolding xs by auto
    with least have "real_of (accuracy ?best) \<le> real_of (accuracy (reading_of q))"
      by blast
    then show ?thesis unfolding pos(2) by (simp add: reading_of_def)
  qed
  with i res show ?thesis by blast
qed

text \<open>
  Claim C5.  Where the browser has a geolocation service, \<open>getBestReading\<close> resolves
  with \<open>null\<close> exactly when every one of the \<open>numSamples\<close> requests is rejected, and it
  then reports the error that no reading was obtained.  When a request resolves (the
  accuracies of the resolved positions being finite), the rejected requests are skipped
  and the result is the position and accuracy of a resolved request whose accuracy is the
  least among the resolved requests.  For three positions of accuracy 20, 5 and 15 the
  result is the second one.
\<close>

theorem getBestReading_best_of_samples:
  assumes geo: "geolocation s"
  shows
    "(fst (getBestReading sensor numSamples s) = None \<longleftrightarrow>
        (\<forall>i. 0 \<le> i \<and> i < numSamples \<longrightarrow> (\<exists>err. sensor i = Rejected err))) \<and>
     ((\<forall>i. 0 \<le> i \<and> i < numSamples \<longrightarrow> (\<exists>err. sensor i = Rejected err)) \<longrightarrow>
        error (snd (getBestReading sensor numSamples s)) = Some ''Failed to get any GPS readings.'') \<and>
     ((\<exists>i pos. 0 \<le> i \<and> i < numSamples \<and> sensor i = Resolved pos) \<and>
      (\<forall>i pos. 0 \<le> i \<and> i < numSamples \<and> sensor i = Resolved pos \<longrightarrow>
         finite_num (pos_accuracy pos)) \<longrightarrow>
        (\<exists>i pos. 0 \<le> i \<and> i < numSamples \<and> sensor i = Resolved pos \<and>
           fst (getBestReading sensor numSamples s) =
             Some \<lparr>coords = \<lparr>latitude = pos_latitude pos, longitude = pos_longitude pos\<rparr>,
                   accuracy = pos_accuracy pos\<rparr> \<and>
           (\<forall>j q. 0 \<le> j \<and> j < numSamples \<and> sensor j = Resolved q \<longrightarrow>
              real_of (pos_accuracy pos) \<le> real_of (pos_accuracy q)))) \<and>
     (numSamples = 3 \<and> sensor 0 = Resolved p0 \<and> sensor 1 = Resolved p1 \<and> sensor 2 = Resolved p2 \<and>
      pos_accuracy p0 = Fin 20 \<and> pos_accuracy p1 = Fin 5 \<and> pos_accuracy p2 = Fin 15 \<longrightarrow>
        fst (getBestReading sensor numSamples s) =
          Some \<lparr>coords = \<lparr>latitude = pos_latitude p1, longitude = pos_longitude p1\<rparr>,
                accuracy = Fin 5\<rparr>)"
proof (intro conjI impI)
  show "fst (getBestReading sensor numSamples s) = None \<longleftrightarrow>
        (\<forall>i. 0 \<le> i \<and> i < numSamples \<longrightarrow> (\<exists>err. sensor i = Rejected err))"
  proof (cases "resolved_samples sensor numSamples")
    case Nil
    with getBestReading_none [OF geo Nil] show ?thesis
      by (simp add: resolved_samples_empty [symmetric])
  next
    case (Cons p ps)
    with getBestReading_some [OF geo Cons] show ?thesis
      by (simp add: resolved_samples_empty [symmetric])
  qed
next
  assume "\<forall>i. 0 \<le> i \<and> i < numSamples \<longrightarrow> (\<exists>err. sensor i = Rejected err)"
  then have "resolved_samples sensor numSamples = []"
    by (simp add: resolved_samples_empty)
  from getBestReading_none [OF geo this]
  show "error (snd (getBestReading sensor numSamples s)) = Some ''Failed to get any GPS readings.''"
    by simp
next
  assume h: "(\<exists>i pos. 0 \<le> i \<and> i < numSamples \<and> sensor i = Resolved pos) \<and>
      (\<forall>i pos. 0 \<le> i \<and> i < numSamples \<and> sensor i = Resolved pos \<longrightarrow>
         finite_num (pos_accuracy pos))"
  then obtain k p where "sensor k = Resolved p" "0 \<le> k" "k < numSamples" by blast
  from getBestReading_least [where sensor = sensor and k = k and p = p, OF geo this] h
  show "\<exists>i pos. 0 \<le> i \<and> i < numSamples \<and> sensor i = Resolved pos \<and>
           fst (getBestReading sensor numSamples s) =
             Some \<lparr>coords = \<lparr>latitude = pos_latitude pos, longitude = pos_longitude pos\<rparr>,
                   accuracy = pos_accuracy pos\<rparr> \<and>
           (\<forall>j q. 0 \<le> j \<and> j < numSamples \<and> sensor j = Resolved q \<longrightarrow>
              real_of (pos_accuracy pos) \<le> real_of (pos_accuracy q))"
    by blast
next
  assume h: "numSamples = 3 \<and> sensor 0 = Resolved p0 \<and> sensor 1 = Resolved p1 \<and>
      sensor 2 = Resolved p2 \<and>
      pos_accuracy p0 = Fin 20 \<and> pos_accuracy p1 = Fin 5 \<and> pos_accuracy p2 = Fin 15"
  have cases3: "i = 0 \<or> i = 1 \<or> i = 2" if "0 \<le> i" "i < 3" for i :: int
    using that by arith
  have fin: "\<forall>i pos. 0 \<le> i \<and> i < numSamples \<and> sensor i = Resolved pos \<longrightarrow>
      finite_num (pos_accuracy pos)"
    using h cases3 by (metis finite_num.simps(1) sample.inject(1))
  have "sensor 1 = Resolved p1" "(0::int) \<le> 1" "1 < numSamples" using h by simp_all
  from getBestReading_least [where sensor = sensor and k = 1 and p = p1, OF geo this fin] obtain i pos where
    i: "0 \<le> i" "i < numSamples" "sensor i = Resolved pos" and
    res: "fst (getBestReading sensor numSamples s) =
             Some \<lparr>coords = \<lparr>latitude = pos_latitude pos, longitude = pos_longitude pos\<rparr>,
                   accuracy = pos_accuracy pos\<rparr>" and
    least: "\<forall>j q. 0 \<le> j \<and> j < numSamples \<and> sensor j = Resolved q \<longrightarrow>
              real_of (pos_accuracy pos) \<le> real_of (pos_accuracy q)"
    by blast
  from least h have le: "real_of (pos_accuracy pos) \<le> 5"
    by (metis \<open>sensor 1 = Resolved p1\<close> \<open>(0::int) \<le> 1\<close> \<open>1 < numSamples\<close> real_of.simps(1))
  from i(1,2) h have "i = 0 \<or> i = 1 \<or> i = 2" by (simp add: cases3)
  with i(3) h le have "pos = p1" by auto
  with res h
  show "fst (getBestReading sensor numSamples s) =
          Some \<lparr>coords = \<lparr>latitude = pos_latitude p1, longitude = pos_longitude p1\<rparr>,
                accuracy = Fin 5\<rparr>"
    by simp
qed

text \<open>
  The theorem on a sensor that delivers three positions of accuracy 20, 5 and 15, and
  on a sensor that rejects every request with a timeout.
\<close>

theorem getBestReading_best_of_samples_witness:
  "geolocation initial_hook \<and>
   fst (getBestReading
          (\<lambda>i. if i = 0 then Resolved (GeolocationPosition (Fin 40) (Fin (- 75)) (Fin 20) (Fin 0))
               else if i = 1 then Resolved (GeolocationPosition (Fin 41) (Fin (- 76)) (Fin 5) (Fin 1))
               else if i = 2 then Resolved (GeolocationPosition (Fin 42) (Fin (- 77)) (Fin 15) (Fin 2))
               else Rejected 3)
          3 initial_hook) =
     Some \<lparr>coords = \<lparr>latitude = Fin 41, longitude = Fin (- 76)\<rparr>, accuracy = Fin 5\<rparr> \<and>
   fst (getBestReading (\<lambda>i. Rejected 3) 3 initial_hook) = None \<and>
   error (snd (getBestReading (\<lambda>i. Rejected 3) 3 initial_hook)) =
     Some ''Failed to get any GPS readings.''"
proof -
  let ?sensor =
    "\<lambda>i::int. if i = 0 then Resolved (GeolocationPosition (Fin 40) (Fin (- 75)) (Fin 20) (Fin 0))
       else if i = 1 then Resolved (GeolocationPosition (Fin 41) (Fin (- 76)) (Fin 5) (Fin 1))
       else if i = 2 then Resolved (GeolocationPosition (Fin 42) (Fin (- 77)) (Fin 15) (Fin 2))
       else Rejected 3"
  have geo: "geolocation initial_hook" by (simp add: initial_hook_def)
  have "fst (getBestReading ?sensor 3 initial_hook) =
     Some \<lparr>coords = \<lparr>latitude = Fin 41, longitude = Fin (- 76)\<rparr>, accuracy = Fin 5\<rparr>"
    using getBestReading_best_of_samples [OF geo, of ?sensor 3
        "GeolocationPosition (Fin 40) (Fin (- 75)) (Fin 20) (Fin 0)"
        "GeolocationPosition (Fin 41) (Fin (- 76)) (Fin 5) (Fin 1)"
        "GeolocationPosition (Fin 42) (Fin (- 77)) (Fin 15) (Fin 2)"]
    by simp
  moreover have "fst (getBestReading (\<lambda>i. Rejected 3) 3 initial_hook) = None \<and>
    error (snd (getBestReading (\<lambda>i. Rejected 3) 3 initial_hook)) =
     Some ''Failed to get any GPS readings.''"
    using getBestReading_best_of_samples [OF geo, of "\<lambda>i. Rejected 3" 3] by simp
  ultimately show ?thesis using geo by simp
qed

section \<open>Properties of the saved location\<close>

text \<open>
  Claim C9.  Reading the saved location never raises: whatever the storage holds and
  whatever \<open>JSON.parse\<close> does, \<open>getCarLocation\<close> returns a value.  It returns \<open>null\<close>
  when the record is absent, when the storage refuses the access, and when the stored
  string does not parse.
\<close>

theorem getCarLocation_never_raises:
  "(\<exists>v. getCarLocation JSON_parse storage = Inr v) \<and>
   getCarLocation JSON_parse Blocked = Inr None \<and>
   (\<forall>m. m STORAGE_KEY = None \<longrightarrow> getCarLocation JSON_parse (Store m) = Inr None) \<and>
   (\<forall>m text e. m STORAGE_KEY = Some text \<and> JSON_parse text = Inl e \<longrightarrow>
      getCarLocation JSON_parse (Store m) = Inr None)"
proof -
  have "\<exists>v. getCarLocation JSON_parse storage = Inr v"
    by (cases storage)
      (auto simp: getCarLocation_def try_catch_def split: sum.splits option.splits)
  moreover have "getCarLocation JSON_parse Blocked = Inr None"
    by (simp add: getCarLocation_def try_catch_def)
  moreover have "getCarLocation JSON_parse (Store m) = Inr None" if "m STORAGE_KEY = None" for m
    using that by (simp add: getCarLocation_def try_catch_def)
  moreover have "getCarLocation JSON_parse (Store m) = Inr None"
    if "m STORAGE_KEY = Some str" "JSON_parse str = Inl e" for m str e
    using that by (simp add: getCarLocation_def try_catch_def)
  ultimately show ?thesis by blast
qed

text \<open>
  The theorem at an empty store, and at a store whose record is the string \<open>{\<close> under a
  parser that rejects every string.
\<close>

theorem getCarLocation_never_raises_witness:
  "Map.empty STORAGE_KEY = None \<and>
   getCarLocation (\<lambda>text. Inl SyntaxError :: exception + nat option) (Store Map.empty) = Inr None \<and>
   [STORAGE_KEY \<mapsto> ''{''] STORAGE_KEY = Some ''{'' \<and>
   getCarLocation (\<lambda>text. Inl SyntaxError :: exception + nat option)
     (Store [STORAGE_KEY \<mapsto> ''{'']) = Inr None"
proof -
  let ?parse = "\<lambda>text. Inl SyntaxError :: exception + nat option"
  note inst = getCarLocation_never_raises [of ?parse "Store Map.empty"]
  have "getCarLocation ?parse (Store Map.empty) = Inr None"
    using inst by (elim conjE allE [of _ "Map.empty"]) simp
  moreover have "getCarLocation ?parse (Store [STORAGE_KEY \<mapsto> ''{'']) = Inr None"
    using inst
    by (elim conjE allE [of _ "[STORAGE_KEY \<mapsto> ''{'']"] allE [of _ "''{''"] allE [of _ SyntaxError])
      simp
  ultimately show ?thesis by simp
qed

end
